theory Spec2Isabelle
  imports Complex_Main "HOL-Library.Multiset"
begin

section \<open>Data model of the front end (App.tsx, ReactionTreeGraph.tsx)\<close>

text \<open>
  The TypeScript interfaces, field by field.  A JavaScript \<^verbatim>\<open>number\<close> that carries a
  quantity or a price is a \<^typ>\<open>real\<close>: the values arrive through JSON, so they are finite,
  and on finite doubles the sign of \<^verbatim>\<open>a - b\<close> is the sign of the exact difference.
  Identifiers are natural numbers.  Rounding of floating-point arithmetic is not modelled.
\<close>

datatype SourceType = Moon | Buy | React | Output

datatype ReactionTreeNode =
  ReactionTreeNode
    (name: string)
    (node_id: nat)
    (quantity: real)
    (source: SourceType)
    (unit_price: real)
    (total_price: real)
    (reaction_name: "string option")
    (children: "ReactionTreeNode list")

record MaterialEntry =
  material_name :: string
  material_quantity :: real
  item_id :: nat
  system_id :: nat
  region_id :: nat
  additional_id :: nat

record MoonComposition =
  moon_name :: string
  materials :: "MaterialEntry list"

record InputBreakdown =
  input_name :: string
  input_quantity :: real
  input_unit_price :: real
  input_total_price :: real
  from_moon :: bool

record ReactionProfit =
  formula_id :: nat
  formula_name :: string
  output_name :: string
  output_id :: nat
  output_quantity :: real
  output_unit_price :: real
  output_value :: real
  input_cost :: real
  profit :: real
  margin :: real
  inputs :: "InputBreakdown list"
  uses_user_materials :: bool
  reaction_tree :: "ReactionTreeNode option"

record Tab =
  tab_id :: string
  tab_name :: string
  tab_results :: "ReactionProfit list option"

datatype SortField =
  Output_name | Output_quantity | Input_cost | Output_value | Profit | Margin

datatype SortDirection = Asc | Desc

section \<open>The Result Ranker: getSortedResults\<close>

text \<open>
  \<^verbatim>\<open>Array.prototype.sort\<close> is the ECMAScript built-in.  Since ES2019 it is a stable sort;
  the built-in is modelled by the simplest stable algorithm, insertion from the right: an
  element moves past exactly those later elements that the comparator puts strictly
  before it.  For the numeric fields the result is the only sorted and stable rearrangement
  of the input (\<open>ranker_numeric_unique\<close> below), so no other conforming implementation can
  return a different array.
\<close>

fun sort_insert :: "('a \<Rightarrow> 'a \<Rightarrow> real) \<Rightarrow> 'a \<Rightarrow> 'a list \<Rightarrow> 'a list" where
  "sort_insert cmp x [] = [x]"
| "sort_insert cmp x (y # ys) =
     (if cmp x y \<le> 0 then x # y # ys else y # sort_insert cmp x ys)"

fun array_sort :: "('a \<Rightarrow> 'a \<Rightarrow> real) \<Rightarrow> 'a list \<Rightarrow> 'a list" where
  "array_sort cmp [] = []"
| "array_sort cmp (x # xs) = sort_insert cmp x (array_sort cmp xs)"

text \<open>
  \<^verbatim>\<open>a[sortField]\<close> for the five numeric fields.  The name field is a string and is never
  read through this path (the comparator branches on it first).
\<close>

fun numeric_field :: "SortField \<Rightarrow> ReactionProfit \<Rightarrow> real" where
  "numeric_field Output_quantity r = output_quantity r"
| "numeric_field Input_cost r = input_cost r"
| "numeric_field Output_value r = output_value r"
| "numeric_field Profit r = profit r"
| "numeric_field Margin r = margin r"
| "numeric_field Output_name r = 0"

text \<open>
  The arrow function handed to \<^verbatim>\<open>sort\<close>.  \<^verbatim>\<open>String.prototype.localeCompare\<close> belongs to
  the host (its collation is the locale's), so it is a parameter \<open>localeCompare\<close> of the
  model; \<open>sortField\<close> and \<open>sortDirection\<close> are the component state the closure reads.
\<close>

definition compareResults ::
  "(string \<Rightarrow> string \<Rightarrow> real) \<Rightarrow> SortField \<Rightarrow> SortDirection \<Rightarrow>
   ReactionProfit \<Rightarrow> ReactionProfit \<Rightarrow> real" where
  "compareResults localeCompare sortField sortDirection a b =
     (let comparison =
        (if sortField = Output_name
         then localeCompare (output_name a) (output_name b)
         else numeric_field sortField a - numeric_field sortField b)
      in if sortDirection = Asc then comparison else - comparison)"

definition getSortedResults ::
  "(string \<Rightarrow> string \<Rightarrow> real) \<Rightarrow> SortField \<Rightarrow> SortDirection \<Rightarrow>
   ReactionProfit list \<Rightarrow> ReactionProfit list" where
  "getSortedResults localeCompare sortField sortDirection results =
     array_sort (compareResults localeCompare sortField sortDirection) results"

text \<open>
  The key by which a numeric field ranks the rows: the field in ascending direction, its
  negation in descending direction.
\<close>

definition ranking_key :: "SortField \<Rightarrow> SortDirection \<Rightarrow> ReactionProfit \<Rightarrow> real" where
  "ranking_key f d r = (if d = Asc then numeric_field f r else - numeric_field f r)"

text \<open>
  What the host guarantees of \<^verbatim>\<open>localeCompare\<close>: it is a consistent comparison, that is,
  swapping the arguments swaps the sign, and "not after" is transitive.
\<close>

definition consistent_compare :: "(string \<Rightarrow> string \<Rightarrow> real) \<Rightarrow> bool" where
  "consistent_compare lc \<longleftrightarrow>
     (\<forall>s t. (lc s t < 0) = (0 < lc t s)) \<and>
     (\<forall>s t u. lc s t \<le> 0 \<longrightarrow> lc t u \<le> 0 \<longrightarrow> lc s u \<le> 0)"

text \<open>
  The lexicographic order of the code units of two strings: the first difference decides,
  a proper prefix comes first.  It is a consistent comparison too, but not the one the
  host supplies.
\<close>

fun codeUnitCompare :: "string \<Rightarrow> string \<Rightarrow> real" where
  "codeUnitCompare [] [] = 0"
| "codeUnitCompare [] (d # t) = -1"
| "codeUnitCompare (c # s) [] = 1"
| "codeUnitCompare (c # s) (d # t) =
     (if of_char c < (of_char d :: nat) then -1
      else if of_char d < (of_char c :: nat) then 1
      else codeUnitCompare s t)"

text \<open>
  A comparison of the kind the host supplies.  By default \<^verbatim>\<open>localeCompare\<close> follows the
  root collation of the Unicode Collation Algorithm; for names made of ASCII letters, digits
  and spaces that order is: space before digits before letters, letters compared without
  regard to case first, and names that are equal up to case ordered by their first
  difference in case, lower case first.  \<open>lower\<close> folds an upper-case ASCII letter.
\<close>

definition lower :: "char \<Rightarrow> char" where
  "lower c =
     (case map_of (zip ''ABCDEFGHIJKLMNOPQRSTUVWXYZ'' ''abcdefghijklmnopqrstuvwxyz'') c of
        None \<Rightarrow> c
      | Some l \<Rightarrow> l)"

definition hostCollation :: "string \<Rightarrow> string \<Rightarrow> real" where
  "hostCollation s t =
     (let primary = codeUnitCompare (map lower s) (map lower t)
      in if primary = 0 then - codeUnitCompare s t else primary)"

text \<open>
  The arrays as JavaScript has them: objects in a store, named by references.
  \<^verbatim>\<open>[...results]\<close> allocates a fresh array with the same elements, \<^verbatim>\<open>sort\<close> reorders the
  array it is called on in place and returns that same reference.  A reference that names
  no array cannot occur in the program; the model answers \<open>None\<close> for it.
\<close>

record heap =
  arrays :: "nat \<Rightarrow> ReactionProfit list option"
  next_ref :: nat

definition heap_ok :: "heap \<Rightarrow> bool" where
  "heap_ok h \<longleftrightarrow> (\<forall>r. next_ref h \<le> r \<longrightarrow> arrays h r = None)"

definition spread_copy :: "heap \<Rightarrow> nat \<Rightarrow> (nat \<times> heap) option" where
  "spread_copy h r =
     (case arrays h r of
        None \<Rightarrow> None
      | Some xs \<Rightarrow>
          Some (next_ref h,
                h\<lparr>arrays := (arrays h)(next_ref h \<mapsto> xs), next_ref := Suc (next_ref h)\<rparr>))"

definition sort_in_place ::
  "(ReactionProfit \<Rightarrow> ReactionProfit \<Rightarrow> real) \<Rightarrow> heap \<Rightarrow> nat \<Rightarrow> (nat \<times> heap) option" where
  "sort_in_place cmp h r =
     (case arrays h r of
        None \<Rightarrow> None
      | Some xs \<Rightarrow> Some (r, h\<lparr>arrays := (arrays h)(r \<mapsto> array_sort cmp xs)\<rparr>))"

definition getSortedResults_heap ::
  "(string \<Rightarrow> string \<Rightarrow> real) \<Rightarrow> SortField \<Rightarrow> SortDirection \<Rightarrow>
   heap \<Rightarrow> nat \<Rightarrow> (nat \<times> heap) option" where
  "getSortedResults_heap localeCompare sortField sortDirection h results =
     (case spread_copy h results of
        None \<Rightarrow> None
      | Some (copy, h1) \<Rightarrow>
          sort_in_place (compareResults localeCompare sortField sortDirection) h1 copy)"

text \<open>A result row with a given output name and margin, for running the ranker.\<close>

definition example_result :: "nat \<Rightarrow> string \<Rightarrow> real \<Rightarrow> ReactionProfit" where
  "example_result i n m =
     \<lparr>formula_id = i, formula_name = n, output_name = n, output_id = i,
      output_quantity = 1, output_unit_price = 100, output_value = 100,
      input_cost = 100 - m, profit = m, margin = m, inputs = [],
      uses_user_materials = False, reaction_tree = None\<rparr>"

text \<open>A store holding one array of two rows at reference 0.\<close>

definition example_heap :: heap where
  "example_heap =
     \<lparr>arrays = (\<lambda>r. if r = 0 then Some [example_result 1 ''A'' 7, example_result 2 ''B'' 9]
                       else None),
      next_ref = 1\<rparr>"

section \<open>The reaction graph: treeToFlow (ReactionTreeGraph.tsx)\<close>

text \<open>
  A non-negative integer inside a template literal is rendered in decimal, most significant
  digit first (\<^verbatim>\<open>`node-${idCounter.value++}`\<close>).
\<close>

fun decimal :: "nat \<Rightarrow> string" where
  "decimal n =
     (if n < 10 then [char_of (48 + n)]
      else decimal (n div 10) @ [char_of (48 + n mod 10)])"

declare decimal.simps [simp del]

text \<open>The React Flow node and edge objects that \<^verbatim>\<open>treeToFlow\<close> pushes.\<close>

record FlowNodeData =
  label :: string
  data_source :: SourceType
  data_quantity :: real
  price :: string

record FlowNode =
  flow_id :: string
  flow_type :: string
  position :: "real \<times> real"
  data :: FlowNodeData

record FlowEdge =
  edge_id :: string
  edge_source :: string
  edge_target :: string
  stroke :: string
  strokeWidth :: nat
  animated :: bool

text \<open>
  The two arrays and the counter object are shared by all recursive calls and mutated in
  place; the model threads them as one state.
\<close>

record flow_state =
  nodes :: "FlowNode list"
  edges :: "FlowEdge list"
  idCounter :: nat

text \<open>
  \<^verbatim>\<open>if (parentId)\<close> tests a \<^verbatim>\<open>string | null\<close>: null and the empty string are both falsy.
  The result is the parent id when the test succeeds.
\<close>

definition truthy :: "string option \<Rightarrow> string option" where
  "truthy parentId =
     (case parentId of None \<Rightarrow> None | Some s \<Rightarrow> if s = [] then None else Some s)"

text \<open>
  \<^verbatim>\<open>treeToFlow(tree, formatIsk, parentId, nodes, edges, idCounter)\<close>; the second function
  is its \<^verbatim>\<open>for (const child of tree.children)\<close> loop.
\<close>

fun treeToFlow ::
  "ReactionTreeNode \<Rightarrow> (real \<Rightarrow> string) \<Rightarrow> string option \<Rightarrow> flow_state \<Rightarrow> flow_state"
and treeToFlow_children ::
  "ReactionTreeNode list \<Rightarrow> (real \<Rightarrow> string) \<Rightarrow> string \<Rightarrow> flow_state \<Rightarrow> flow_state"
where
  "treeToFlow (ReactionTreeNode nm i qty src up tp rn cs) formatIsk parentId st =
     (let nodeId = ''node-'' @ decimal (idCounter st);
          st1 = st\<lparr>idCounter := idCounter st + 1\<rparr>;
          st2 = st1\<lparr>nodes := nodes st1 @
                  [\<lparr>flow_id = nodeId, flow_type = ''reaction'', position = (0, 0),
                    data = \<lparr>label = nm, data_source = src, data_quantity = qty,
                             price = formatIsk tp\<rparr>\<rparr>]\<rparr>;
          st3 = (case truthy parentId of
                   Some p \<Rightarrow>
                     st2\<lparr>edges := edges st2 @
                        [\<lparr>edge_id = ''edge-'' @ p @ ''-'' @ nodeId,
                          edge_source = nodeId, edge_target = p,
                          stroke = ''#1a8c6b'', strokeWidth = 2,
                          animated = (src = React)\<rparr>]\<rparr>
                 | None \<Rightarrow> st2)
      in treeToFlow_children cs formatIsk nodeId st3)"
| "treeToFlow_children [] formatIsk nodeId st = st"
| "treeToFlow_children (child # rest) formatIsk nodeId st =
     treeToFlow_children rest formatIsk nodeId (treeToFlow child formatIsk (Some nodeId) st)"

text \<open>
  The call \<^verbatim>\<open>treeToFlow(tree, formatIsk)\<close> of the component, with the default arguments
  \<^verbatim>\<open>parentId = null, nodes = [], edges = [], idCounter = { value: 0 }\<close>.
\<close>

definition treeToFlow_top ::
  "ReactionTreeNode \<Rightarrow> (real \<Rightarrow> string) \<Rightarrow> FlowNode list \<times> FlowEdge list" where
  "treeToFlow_top tree formatIsk =
     (let st = treeToFlow tree formatIsk None \<lparr>nodes = [], edges = [], idCounter = 0\<rparr>
      in (nodes st, edges st))"


text \<open>
  Reference notions the graph is compared with: the number of nodes of a tree, its nodes
  in pre-order, the id the n-th visited node receives, the payload of a node, and the
  parent relation as pairs (number of a child, number of its parent) when the nodes are
  numbered in pre-order from \<open>k\<close>.
\<close>

fun tree_size :: "ReactionTreeNode \<Rightarrow> nat"
and trees_size :: "ReactionTreeNode list \<Rightarrow> nat" where
  "tree_size (ReactionTreeNode nm i qty src up tp rn cs) = Suc (trees_size cs)"
| "trees_size [] = 0"
| "trees_size (c # cs) = tree_size c + trees_size cs"

fun preorder :: "ReactionTreeNode \<Rightarrow> ReactionTreeNode list"
and preorder_list :: "ReactionTreeNode list \<Rightarrow> ReactionTreeNode list" where
  "preorder (ReactionTreeNode nm i qty src up tp rn cs) =
     ReactionTreeNode nm i qty src up tp rn cs # preorder_list cs"
| "preorder_list [] = []"
| "preorder_list (c # cs) = preorder c @ preorder_list cs"

definition nodeId_of :: "nat \<Rightarrow> string" where
  "nodeId_of k = ''node-'' @ decimal k"

definition node_data :: "(real \<Rightarrow> string) \<Rightarrow> ReactionTreeNode \<Rightarrow> FlowNodeData" where
  "node_data formatIsk n =
     \<lparr>label = name n, data_source = source n, data_quantity = quantity n,
      price = formatIsk (total_price n)\<rparr>"

fun parent_links :: "nat \<Rightarrow> ReactionTreeNode \<Rightarrow> (nat \<times> nat) list"
and child_links :: "nat \<Rightarrow> nat \<Rightarrow> ReactionTreeNode list \<Rightarrow> (nat \<times> nat) list" where
  "parent_links k (ReactionTreeNode nm i qty src up tp rn cs) = child_links k (Suc k) cs"
| "child_links p k [] = []"
| "child_links p k (c # cs) = (k, p) # parent_links k c @ child_links p (k + tree_size c) cs"

definition edge_ends :: "FlowEdge \<Rightarrow> string \<times> string" where
  "edge_ends e = (edge_source e, edge_target e)"

definition link_ends :: "nat \<times> nat \<Rightarrow> string \<times> string" where
  "link_ends l = (nodeId_of (fst l), nodeId_of (snd l))"

text \<open>A tree of four nodes: the output Y is made from X (from a moon) and Z, and Z from W (bought).\<close>

definition example_tree :: ReactionTreeNode where
  "example_tree =
     ReactionTreeNode ''Y'' 4 1 Output 500 500 None
       [ReactionTreeNode ''X'' 1 10 Moon 3 30 None [],
        ReactionTreeNode ''Z'' 3 5 React 20 100 (Some ''Z reaction'')
          [ReactionTreeNode ''W'' 2 50 Buy 2 100 None []]]"

section \<open>Text instructions: generateTextInstructions (App.tsx)\<close>

text \<open>
  \<^verbatim>\<open>Number.prototype.toFixed(2)\<close> and \<^verbatim>\<open>toLocaleString()\<close> are host functions that print a
  number; they are the parameters \<open>toFixed2\<close> and \<open>toLocaleString\<close>.
\<close>

definition formatIsk :: "(real \<Rightarrow> string) \<Rightarrow> real \<Rightarrow> string" where
  "formatIsk toFixed2 v =
     (if \<bar>v\<bar> \<ge> 1000000000 then toFixed2 (v / 1000000000) @ ''B ISK''
      else if \<bar>v\<bar> \<ge> 1000000 then toFixed2 (v / 1000000) @ ''M ISK''
      else if \<bar>v\<bar> \<ge> 1000 then toFixed2 (v / 1000) @ ''K ISK''
      else toFixed2 v @ '' ISK'')"

text \<open>The entries of the three local arrays of \<^verbatim>\<open>generateTextInstructions\<close>.\<close>

record material_item =
  item_name :: string
  item_qty :: real
  item_price :: string

record reaction_item =
  item_output :: string
  item_inputs :: "string list"
  reaction_qty :: real

record collected =
  moonMaterials :: "material_item list"
  buyMaterials :: "material_item list"
  reactions :: "reaction_item list"

text \<open>\<^verbatim>\<open>Array.prototype.join\<close> on an array of strings.\<close>

fun join :: "string \<Rightarrow> string list \<Rightarrow> string" where
  "join sep [] = []"
| "join sep [x] = x"
| "join sep (x # y # ys) = x @ sep @ join sep (y # ys)"

text \<open>The template \<^verbatim>\<open>`${c.name} x${c.quantity.toLocaleString()}`\<close>.\<close>

definition input_text :: "(real \<Rightarrow> string) \<Rightarrow> ReactionTreeNode \<Rightarrow> string" where
  "input_text toLocaleString c = name c @ '' x'' @ toLocaleString (quantity c)"

text \<open>
  \<^verbatim>\<open>collectFromTree\<close> pushes onto the three arrays of the enclosing call and then visits the
  children with \<^verbatim>\<open>forEach\<close>; the arrays are threaded as one state.
\<close>

fun collectFromTree ::
  "(real \<Rightarrow> string) \<Rightarrow> (real \<Rightarrow> string) \<Rightarrow> ReactionTreeNode \<Rightarrow> collected \<Rightarrow> collected"
and collectFromTree_forEach ::
  "(real \<Rightarrow> string) \<Rightarrow> (real \<Rightarrow> string) \<Rightarrow> ReactionTreeNode list \<Rightarrow> collected \<Rightarrow> collected"
where
  "collectFromTree toLocaleString toFixed2 (ReactionTreeNode nm i qty src up tp rn cs) st =
     (let st1 =
        (if src = Moon then
           st\<lparr>moonMaterials := moonMaterials st @
                [\<lparr>item_name = nm, item_qty = qty, item_price = formatIsk toFixed2 tp\<rparr>]\<rparr>
         else if src = Buy then
           st\<lparr>buyMaterials := buyMaterials st @
                [\<lparr>item_name = nm, item_qty = qty, item_price = formatIsk toFixed2 tp\<rparr>]\<rparr>
         else if src = React \<or> src = Output then
           (if length cs > 0 then
              st\<lparr>reactions := reactions st @
                   [\<lparr>item_output = nm, item_inputs = map (input_text toLocaleString) cs,
                     reaction_qty = qty\<rparr>]\<rparr>
            else st)
         else st)
      in collectFromTree_forEach toLocaleString toFixed2 cs st1)"
| "collectFromTree_forEach toLocaleString toFixed2 [] st = st"
| "collectFromTree_forEach toLocaleString toFixed2 (child # rest) st =
     collectFromTree_forEach toLocaleString toFixed2 rest
       (collectFromTree toLocaleString toFixed2 child st)"

definition generateTextInstructions ::
  "(real \<Rightarrow> string) \<Rightarrow> (real \<Rightarrow> string) \<Rightarrow> ReactionTreeNode \<Rightarrow> string list" where
  "generateTextInstructions toLocaleString toFixed2 tree =
     (let c = collectFromTree toLocaleString toFixed2 tree
                \<lparr>moonMaterials = [], buyMaterials = [], reactions = []\<rparr>;
          instructions0 = [];
          instructions1 =
            (if length (moonMaterials c) > 0 then
               instructions0 @ [''EXTRACT FROM MOONS:''] @
               map (\<lambda>m. ''  '' @ item_name m @ '' x'' @ toLocaleString (item_qty m) @
                          '' (worth '' @ item_price m @ '')'') (moonMaterials c) @
               ['''']
             else instructions0);
          instructions2 =
            (if length (buyMaterials c) > 0 then
               instructions1 @ [''PURCHASE:''] @
               map (\<lambda>m. ''  '' @ item_name m @ '' x'' @ toLocaleString (item_qty m) @
                          '' for '' @ item_price m) (buyMaterials c) @
               ['''']
             else instructions1);
          instructions3 =
            (if length (reactions c) > 0 then
               instructions2 @ [''REACT (in order):''] @
               concat (map (\<lambda>(i, r).
                         [''  '' @ decimal (i + 1) @ ''. '' @ join '' + '' (item_inputs r),
                          ''     -> '' @ item_output r @ '' x'' @ toLocaleString (reaction_qty r)])
                       (List.enumerate 0 (rev (reactions c)))) @
               ['''']
             else instructions2)
      in instructions3 @
         [''SELL: '' @ name tree @ '' x'' @ toLocaleString (quantity tree) @ '' for '' @
          formatIsk toFixed2 (total_price tree)])"

text \<open>
  Reference notions the instructions are compared with: the nodes that are reaction steps,
  the line written for a node in each section, a section (header, body, empty line) that
  is present only when some node belongs to it, and the items collected for a node.
\<close>

definition is_react_step :: "ReactionTreeNode \<Rightarrow> bool" where
  "is_react_step n \<longleftrightarrow> (source n = React \<or> source n = Output) \<and> children n \<noteq> []"

definition extract_line :: "(real \<Rightarrow> string) \<Rightarrow> (real \<Rightarrow> string) \<Rightarrow> ReactionTreeNode \<Rightarrow> string" where
  "extract_line toLocaleString toFixed2 n =
     ''  '' @ name n @ '' x'' @ toLocaleString (quantity n) @
     '' (worth '' @ formatIsk toFixed2 (total_price n) @ '')''"

definition purchase_line :: "(real \<Rightarrow> string) \<Rightarrow> (real \<Rightarrow> string) \<Rightarrow> ReactionTreeNode \<Rightarrow> string" where
  "purchase_line toLocaleString toFixed2 n =
     ''  '' @ name n @ '' x'' @ toLocaleString (quantity n) @
     '' for '' @ formatIsk toFixed2 (total_price n)"

definition react_step :: "(real \<Rightarrow> string) \<Rightarrow> nat \<times> ReactionTreeNode \<Rightarrow> string list" where
  "react_step toLocaleString p =
     [''  '' @ decimal (fst p + 1) @ ''. '' @
        join '' + '' (map (input_text toLocaleString) (children (snd p))),
      ''     -> '' @ name (snd p) @ '' x'' @ toLocaleString (quantity (snd p))]"

definition sell_line :: "(real \<Rightarrow> string) \<Rightarrow> (real \<Rightarrow> string) \<Rightarrow> ReactionTreeNode \<Rightarrow> string" where
  "sell_line toLocaleString toFixed2 n =
     ''SELL: '' @ name n @ '' x'' @ toLocaleString (quantity n) @
     '' for '' @ formatIsk toFixed2 (total_price n)"

definition block :: "string \<Rightarrow> ReactionTreeNode list \<Rightarrow> string list \<Rightarrow> string list" where
  "block header ns body = (if ns = [] then [] else header # body @ [''''])"

definition moon_item :: "(real \<Rightarrow> string) \<Rightarrow> ReactionTreeNode \<Rightarrow> material_item" where
  "moon_item toFixed2 n =
     \<lparr>item_name = name n, item_qty = quantity n, item_price = formatIsk toFixed2 (total_price n)\<rparr>"

definition step_item :: "(real \<Rightarrow> string) \<Rightarrow> ReactionTreeNode \<Rightarrow> reaction_item" where
  "step_item toLocaleString n =
     \<lparr>item_output = name n, item_inputs = map (input_text toLocaleString) (children n),
      reaction_qty = quantity n\<rparr>"

section \<open>The GO handler: handleGo (App.tsx)\<close>

text \<open>The component state, one field per \<^verbatim>\<open>useState\<close>, with the initial values of the source.\<close>

datatype DetailTab = Graph | Text

record AppState =
  inputText :: string
  moons :: "MoonComposition list"
  uniqueMaterials :: "string list"
  errorMessage :: "string option"
  tabs :: "Tab list"
  activeTab :: string
  isAnalyzing :: bool
  expandedReactions :: "nat set"
  sortField :: SortField
  sortDirection :: SortDirection
  reactionDetailTab :: "nat \<Rightarrow> DetailTab option"

definition initial_state :: AppState where
  "initial_state =
     \<lparr>inputText = '''', moons = [], uniqueMaterials = [], errorMessage = None,
      tabs = [\<lparr>tab_id = ''home'', tab_name = ''Home'', tab_results = None\<rparr>],
      activeTab = ''home'', isAnalyzing = False, expandedReactions = {},
      sortField = Margin, sortDirection = Desc, reactionDetailTab = (\<lambda>k. None)\<rparr>"

text \<open>\<^verbatim>\<open>String.prototype.startsWith\<close>.\<close>

definition startsWith :: "string \<Rightarrow> string \<Rightarrow> bool" where
  "startsWith s p \<longleftrightarrow> take (length p) s = p"

text \<open>
  \<^verbatim>\<open>handleGo\<close>, run to completion.  The back end is reached only through
  \<^verbatim>\<open>invoke("analyze_reactions")\<close>: the model records every command sent in the list
  \<open>invoked\<close>, and takes the answer as the parameter \<open>reply\<close> (the results, or the text of the
  error the promise is rejected with).  \<open>now\<close> is \<^verbatim>\<open>Date.now()\<close>.  The state setters use the
  values of the render that created the handler, as the closures of the source do.
\<close>

definition handleGo ::
  "(string + ReactionProfit list) \<Rightarrow> nat \<Rightarrow> AppState \<times> string list \<Rightarrow> AppState \<times> string list" where
  "handleGo reply now w =
     (case w of (s, invoked) \<Rightarrow>
        if length (moons s) = 0 then
          (s\<lparr>errorMessage := Some ''Add some moons first before analyzing''\<rparr>, invoked)
        else
          (let s1 = s\<lparr>isAnalyzing := True, errorMessage := None\<rparr>;
               invoked1 = invoked @ [''analyze_reactions''];
               s2 = (case reply of
                       Inr results \<Rightarrow>
                         (let newTabId = ''analysis-'' @ decimal now;
                              newTab =
                                \<lparr>tab_id = newTabId,
                                 tab_name = ''Analysis '' @
                                   decimal (length (filter (\<lambda>t. startsWith (tab_id t) ''analysis'')
                                                      (tabs s)) + 1),
                                 tab_results = Some results\<rparr>
                          in s1\<lparr>tabs := tabs s @ [newTab], activeTab := newTabId\<rparr>)
                     | Inl err \<Rightarrow> s1\<lparr>errorMessage := Some err\<rparr>)
           in (s2\<lparr>isAnalyzing := False\<rparr>, invoked1)))"

section \<open>The Reaction Analyzer, from the specification\<close>

text \<open>
  Modelled from the spec: the Formula of the data model (section 3), whose definition is in
  the back end, outside the sources: identifier, name, ordered inputs and the single output,
  each a pair (material identifier, amount).
\<close>

record Formula =
  f_identifier :: nat
  f_name :: string
  f_inputs :: "(nat \<times> real) list"
  f_output :: "nat \<times> real"

text \<open>
  Modelled from the spec: the Inventory snapshot (material identifier to cumulative
  quantity) and the Price Oracle (\<open>priceOf\<close>: unit sell price, or unavailable), both read-only
  during a run; the back end that holds them is outside the sources.
\<close>

type_synonym Inventory = "nat \<Rightarrow> real option"
type_synonym PriceOracle = "nat \<Rightarrow> real option"

text \<open>
  Modelled from the spec: the SourcingNode of section 3 (source tag, material, quantity,
  unit price, total price, formula name and children of a reaction); the back-end type is
  outside the sources.
\<close>

datatype Sourcing = FromHoldings | Purchased | ProducedByReaction | FinalOutput

datatype SourcingNode =
  SourcingNode
    (sn_source: Sourcing)
    (sn_material: nat)
    (sn_quantity: real)
    (sn_unit_price: real)
    (sn_total_price: real)
    (sn_formula: "string option")
    (sn_children: "SourcingNode list")

text \<open>
  Modelled from the spec: the two per-formula failures of section 7 that exclude a formula
  from the results.
\<close>

datatype AnalysisError = PriceUnavailable | UnresolvableInput

text \<open>
  Modelled from the spec: the ReactionProfit row of section 3 as the analyzer builds it
  (the back-end record is outside the sources; the front end declares its JSON image above).
\<close>

record ProfitRecord =
  pr_formula_id :: nat
  pr_formula_name :: string
  pr_output_id :: nat
  pr_output_quantity :: real
  pr_output_unit_price :: real
  pr_output_value :: real
  pr_input_cost :: real
  pr_profit :: real
  pr_margin :: real
  pr_usesUserMaterials :: bool
  pr_tree :: SourcingNode

text \<open>
  Modelled from the spec: \<open>formulasProducing\<close> of the Formula Catalog (section 4.3), in
  catalog order.
\<close>

definition formulasProducing :: "Formula list \<Rightarrow> nat \<Rightarrow> Formula list" where
  "formulasProducing catalog m = filter (\<lambda>G. fst (f_output G) = m) catalog"

text \<open>
  Modelled from the spec: a leaf of the sourcing tree, valued at quantity times the market
  price (holdings are priced as if sold).
\<close>

definition leafNode :: "Sourcing \<Rightarrow> nat \<Rightarrow> real \<Rightarrow> real \<Rightarrow> SourcingNode" where
  "leafNode src m q p = SourcingNode src m q p (q * p) None []"

text \<open>
  Modelled from the spec: the node of a formula run; its total price is the sum of its
  resolved children.  The spec does not give the unit price of such a node; the model uses
  the cost per unit (0 for a zero quantity).
\<close>

definition reactionNode :: "Sourcing \<Rightarrow> Formula \<Rightarrow> real \<Rightarrow> SourcingNode list \<Rightarrow> SourcingNode" where
  "reactionNode src G q kids =
     (let total = sum_list (map sn_total_price kids)
      in SourcingNode src (fst (f_output G)) q (if q = 0 then 0 else total / q) total
           (Some (f_name G)) kids)"

text \<open>
  Modelled from the spec: the holdings candidate of \<open>resolveMaterial\<close> (section 4.4, step 2):
  the material is held (fully, or partially with the shortfall bought at the same price) and
  is valued at its market sell price; without a price it cannot be valued.
\<close>

definition holdingsSource :: "Inventory \<Rightarrow> PriceOracle \<Rightarrow> nat \<Rightarrow> real \<Rightarrow> SourcingNode option" where
  "holdingsSource inventory priceOf m q =
     (case inventory m of
        None \<Rightarrow> None
      | Some held \<Rightarrow>
          if held \<le> 0 then None
          else (case priceOf m of
                  None \<Rightarrow> None
                | Some p \<Rightarrow> Some (leafNode FromHoldings m q p)))"

text \<open>
  Modelled from the spec: the purchase candidate, \<open>buyCost\<close> = required quantity times
  market price.
\<close>

definition purchaseSource :: "PriceOracle \<Rightarrow> nat \<Rightarrow> real \<Rightarrow> SourcingNode option" where
  "purchaseSource priceOf m q =
     (case priceOf m of None \<Rightarrow> None | Some p \<Rightarrow> Some (leafNode Purchased m q p))"

text \<open>
  Modelled from the spec: the choice among the applicable candidates, minimum total price,
  ties going to the earlier candidate in the order holdings, reaction, purchase; no
  candidate is \<open>UnresolvableInput\<close>.
\<close>

fun cheapest :: "SourcingNode \<Rightarrow> SourcingNode list \<Rightarrow> SourcingNode" where
  "cheapest best [] = best"
| "cheapest best (c # cs) =
     cheapest (if sn_total_price c < sn_total_price best then c else best) cs"

text \<open>
  Modelled from the spec: \<open>chooseSource\<close> applies \<open>cheapest\<close> to the candidates that exist.
\<close>

definition chooseSource ::
  "SourcingNode option \<Rightarrow> SourcingNode option \<Rightarrow> SourcingNode option \<Rightarrow>
   AnalysisError + SourcingNode" where
  "chooseSource holdings reaction purchase =
     (case List.map_filter (\<lambda>c. c) [holdings, reaction, purchase] of
        [] \<Rightarrow> Inl UnresolvableInput
      | c # cs \<Rightarrow> Inr (cheapest c cs))"

text \<open>
  Modelled from the spec: a formula run fails as soon as one of its inputs fails.
\<close>

fun collect :: "('e + 'a) list \<Rightarrow> 'e + 'a list" where
  "collect [] = Inr []"
| "collect (r # rs) =
     (case r of
        Inl e \<Rightarrow> Inl e
      | Inr x \<Rightarrow> (case collect rs of Inl e \<Rightarrow> Inl e | Inr xs \<Rightarrow> Inr (x # xs)))"

text \<open>
  Modelled from the spec: \<open>resolveMaterial(materialId, requiredQty, visitedFormulaIds)\<close> of
  section 4.4; the analyzer itself is in the back end, outside the sources.  The reaction
  candidate runs the first formula of the catalog that produces the material and is not in
  \<open>visitedFormulaIds\<close>, for the required quantity, with that formula added to the set; each
  input of a run of formula G for quantity q needs its per-run amount times
  q / (output amount of G).  The recursion ends because every nested run adds a formula of
  the catalog to the set.
\<close>

function resolveMaterial ::
  "Formula list \<Rightarrow> Inventory \<Rightarrow> PriceOracle \<Rightarrow> nat \<Rightarrow> real \<Rightarrow> nat set \<Rightarrow>
   AnalysisError + SourcingNode" where
  "resolveMaterial catalog inventory priceOf m q visitedFormulaIds =
     chooseSource
       (holdingsSource inventory priceOf m q)
       (case find (\<lambda>G. f_identifier G \<notin> visitedFormulaIds) (formulasProducing catalog m) of
          None \<Rightarrow> None
        | Some G \<Rightarrow>
            (case collect
                    (map (\<lambda>inp. resolveMaterial catalog inventory priceOf (fst inp)
                                   (snd inp * (q / snd (f_output G)))
                                   (insert (f_identifier G) visitedFormulaIds))
                         (f_inputs G)) of
               Inl e \<Rightarrow> None
             | Inr kids \<Rightarrow> Some (reactionNode ProducedByReaction G q kids)))
       (purchaseSource priceOf m q)"
  by pat_completeness auto
termination
proof (relation "measure (\<lambda>(catalog, inventory, priceOf, m, q, visited).
                    card (f_identifier ` set catalog - visited))")
  show "wf (measure (\<lambda>(catalog, inventory, priceOf, m, q, visited).
                    card (f_identifier ` set catalog - visited)))"
    by simp
next
  fix catalog :: "Formula list" and inventory priceOf :: "nat \<Rightarrow> real option"
    and m :: nat and q :: real and visitedFormulaIds :: "nat set" and G :: Formula
    and inp :: "nat \<times> real"
  assume f: "find (\<lambda>G. f_identifier G \<notin> visitedFormulaIds) (formulasProducing catalog m) = Some G"
  have "G \<in> set (formulasProducing catalog m)" "f_identifier G \<notin> visitedFormulaIds"
    using f by (auto simp: find_Some_iff)
  then have g: "f_identifier G \<in> f_identifier ` set catalog - visitedFormulaIds"
    by (auto simp: formulasProducing_def)
  have "f_identifier ` set catalog - insert (f_identifier G) visitedFormulaIds
        \<subset> f_identifier ` set catalog - visitedFormulaIds"
    using g by auto
  moreover have "finite (f_identifier ` set catalog - visitedFormulaIds)"
    by simp
  ultimately have
    "card (f_identifier ` set catalog - insert (f_identifier G) visitedFormulaIds)
        < card (f_identifier ` set catalog - visitedFormulaIds)"
    by (rule psubset_card_mono [rotated])
  then show "((catalog, inventory, priceOf, fst inp, snd inp * (q / snd (f_output G)),
               insert (f_identifier G) visitedFormulaIds),
              catalog, inventory, priceOf, m, q, visitedFormulaIds)
             \<in> measure (\<lambda>(catalog, inventory, priceOf, m, q, visited).
                    card (f_identifier ` set catalog - visited))"
    by simp
qed

declare resolveMaterial.simps [simp del]

text \<open>
  Modelled from the spec: the evaluation of a formula F for a quantity Q of its output
  (section 4.4, steps 1 and 2), with the tag the node gets.
\<close>

definition evaluateFormula ::
  "Formula list \<Rightarrow> Inventory \<Rightarrow> PriceOracle \<Rightarrow> Sourcing \<Rightarrow> Formula \<Rightarrow> real \<Rightarrow> nat set \<Rightarrow>
   AnalysisError + SourcingNode" where
  "evaluateFormula catalog inventory priceOf tag F Q visitedFormulaIds =
     (case collect
             (map (\<lambda>inp. resolveMaterial catalog inventory priceOf (fst inp)
                            (snd inp * (Q / snd (f_output F)))
                            (insert (f_identifier F) visitedFormulaIds))
                  (f_inputs F)) of
        Inl e \<Rightarrow> Inl e
      | Inr kids \<Rightarrow> Inr (reactionNode tag F Q kids))"

text \<open>
  Modelled from the spec: \<open>usesUserMaterials\<close>, true iff some leaf of the tree is sourced
  from holdings.
\<close>

fun usesHoldings :: "SourcingNode \<Rightarrow> bool" where
  "usesHoldings (SourcingNode src m q u t f kids) =
     (src = FromHoldings \<or> (\<exists>k\<in>set kids. usesHoldings k))"

text \<open>
  The number of nested formula runs on the longest path of a sourcing tree.
\<close>

fun reactionDepth :: "SourcingNode \<Rightarrow> nat" where
  "reactionDepth (SourcingNode src m q u t f kids) =
     (if src = FromHoldings \<or> src = Purchased then 0
      else Suc (foldr max (map reactionDepth kids) 0))"

text \<open>
  The paths of a sourcing tree from the root to its leaves, each as the list of the names of
  the formulas run along it.
\<close>

fun formulaPaths :: "SourcingNode \<Rightarrow> string list list" where
  "formulaPaths (SourcingNode src m q u t f kids) =
     (case f of
        None \<Rightarrow> [[]]
      | Some nm \<Rightarrow>
          if kids = [] then [[nm]]
          else map ((#) nm) (concat (map formulaPaths kids)))"

text \<open>
  A path runs each formula at most once: its names are those of catalog formulas with
  pairwise distinct identifiers, none of them in the given set.
\<close>

definition runs_each_once :: "Formula list \<Rightarrow> nat set \<Rightarrow> string list \<Rightarrow> bool" where
  "runs_each_once catalog visited p \<longleftrightarrow>
     (\<exists>Fs. set Fs \<subseteq> set catalog \<and> distinct (map f_identifier Fs)
           \<and> f_identifier ` set Fs \<inter> visited = {} \<and> map f_name Fs = p)"

text \<open>
  Modelled from the spec: the top-level evaluation of one formula (section 4.4, steps 3
  and 4, and the failure policy): one full run, root tagged \<open>finalOutput\<close>, excluded when
  the output has no market price or an input cannot be resolved.
\<close>

definition analyzeFormula ::
  "Formula list \<Rightarrow> Inventory \<Rightarrow> PriceOracle \<Rightarrow> Formula \<Rightarrow> AnalysisError + ProfitRecord" where
  "analyzeFormula catalog inventory priceOf F =
     (case priceOf (fst (f_output F)) of
        None \<Rightarrow> Inl PriceUnavailable
      | Some p \<Rightarrow>
          (case evaluateFormula catalog inventory priceOf FinalOutput F (snd (f_output F)) {} of
             Inl e \<Rightarrow> Inl e
           | Inr tree \<Rightarrow>
               (let Q = snd (f_output F);
                    cost = sum_list (map sn_total_price (sn_children tree));
                    val = Q * p;
                    gain = val - cost
                in Inr \<lparr>pr_formula_id = f_identifier F, pr_formula_name = f_name F,
                         pr_output_id = fst (f_output F), pr_output_quantity = Q,
                         pr_output_unit_price = p, pr_output_value = val,
                         pr_input_cost = cost, pr_profit = gain,
                         pr_margin = (if val = 0 then 0 else gain / val * 100),
                         pr_usesUserMaterials = usesHoldings tree,
                         pr_tree = tree\<rparr>)))"

text \<open>
  Modelled from the spec: \<open>analyze\<close>, one row for every formula of the catalog that is not
  excluded, in catalog order.
\<close>

definition analyze :: "Formula list \<Rightarrow> Inventory \<Rightarrow> PriceOracle \<Rightarrow> ProfitRecord list" where
  "analyze catalog inventory priceOf =
     concat (map (\<lambda>F. case analyzeFormula catalog inventory priceOf F of
                         Inl e \<Rightarrow> []
                       | Inr r \<Rightarrow> [r]) catalog)"

text \<open>
  The concrete scenario of section 8: material 10 is X, material 20 is Y.
\<close>

definition scenario_catalog :: "Formula list" where
  "scenario_catalog =
     [\<lparr>f_identifier = 1, f_name = ''X to Y'', f_inputs = [(10, 10000)], f_output = (20, 1)\<rparr>]"

definition scenario_inventory :: Inventory where
  "scenario_inventory = (\<lambda>m. if m = 10 then Some 10000 else None)"

definition scenario_prices :: PriceOracle where
  "scenario_prices = (\<lambda>m. if m = 10 then Some 100 else if m = 20 then Some 2000000 else None)"

text \<open>
  A catalog with a cycle: B makes material 11 from 10, C makes 10 from 11, and A needs 11.
  Only the output of A has a market price.
\<close>

definition cycle_catalog :: "Formula list" where
  "cycle_catalog =
     [\<lparr>f_identifier = 1, f_name = ''A'', f_inputs = [(11, 100)], f_output = (12, 1)\<rparr>,
      \<lparr>f_identifier = 2, f_name = ''B'', f_inputs = [(10, 5)], f_output = (11, 10)\<rparr>,
      \<lparr>f_identifier = 3, f_name = ''C'', f_inputs = [(11, 5)], f_output = (10, 10)\<rparr>]"

definition cycle_prices :: PriceOracle where
  "cycle_prices = (\<lambda>m. if m = 12 then Some 500 else None)"

text \<open>The same catalog with one external source: material 10 can be bought.\<close>

definition supplied_prices :: PriceOracle where
  "supplied_prices = (\<lambda>m. if m = 12 then Some 500 else if m = 10 then Some 3 else None)"

section \<open>Properties of the sort\<close>

lemma mset_sort_insert: "mset (sort_insert cmp x ys) = add_mset x (mset ys)"
  by (induction ys) simp_all

lemma mset_array_sort: "mset (array_sort cmp xs) = mset xs"
  by (induction xs) (simp_all add: mset_sort_insert)

lemma set_array_sort: "set (array_sort cmp xs) = set xs"
  using mset_array_sort [of cmp xs] by (metis set_mset_mset)

lemma set_sort_insert: "set (sort_insert cmp x ys) = insert x (set ys)"
  using mset_sort_insert [of cmp x ys] by (metis set_mset_mset set_mset_add_mset_insert)

lemma filter_sort_insert:
  "\<forall>y\<in>set ys. P x \<longrightarrow> P y \<longrightarrow> cmp x y \<le> 0 \<Longrightarrow>
   filter P (sort_insert cmp x ys) = filter P (x # ys)"
  by (induction ys) auto

lemma filter_array_sort:
  "\<forall>a\<in>set xs. \<forall>b\<in>set xs. P a \<longrightarrow> P b \<longrightarrow> cmp a b \<le> 0 \<Longrightarrow>
   filter P (array_sort cmp xs) = filter P xs"
proof (induction xs)
  case Nil
  show ?case by simp
next
  case (Cons x xs)
  have ih: "filter P (array_sort cmp xs) = filter P xs"
    using Cons by simp
  have "\<forall>y\<in>set (array_sort cmp xs). P x \<longrightarrow> P y \<longrightarrow> cmp x y \<le> 0"
    using Cons.prems by (simp add: set_array_sort)
  then have "filter P (sort_insert cmp x (array_sort cmp xs)) = filter P (x # array_sort cmp xs)"
    by (rule filter_sort_insert)
  then show ?case using ih by simp
qed

lemma sorted_sort_insert:
  assumes tot: "\<And>a b. cmp a b \<le> 0 \<or> cmp b a \<le> 0"
    and tr: "\<And>a b c. cmp a b \<le> 0 \<Longrightarrow> cmp b c \<le> 0 \<Longrightarrow> cmp a c \<le> 0"
  shows "sorted_wrt (\<lambda>a b. cmp a b \<le> 0) ys \<Longrightarrow>
         sorted_wrt (\<lambda>a b. cmp a b \<le> 0) (sort_insert cmp x ys)"
proof (induction ys)
  case Nil
  show ?case by simp
next
  case (Cons y ys)
  show ?case
  proof (cases "cmp x y \<le> 0")
    case True
    then have "\<forall>z\<in>set ys. cmp x z \<le> 0"
      using Cons.prems tr by auto
    with True Cons.prems show ?thesis by simp
  next
    case False
    then have "cmp y x \<le> 0" using tot [of x y] by simp
    with False Cons show ?thesis by (auto simp: set_sort_insert)
  qed
qed

lemma sorted_array_sort:
  assumes tot: "\<And>a b. cmp a b \<le> 0 \<or> cmp b a \<le> 0"
    and tr: "\<And>a b c. cmp a b \<le> 0 \<Longrightarrow> cmp b c \<le> 0 \<Longrightarrow> cmp a c \<le> 0"
  shows "sorted_wrt (\<lambda>a b. cmp a b \<le> 0) (array_sort cmp xs)"
proof (induction xs)
  case Nil
  show ?case by simp
next
  case (Cons x xs)
  then show ?case using sorted_sort_insert [of cmp, OF tot tr] by simp
qed

lemma consistent_codeUnitCompare_sym: "(codeUnitCompare s t < 0) = (0 < codeUnitCompare t s)"
  by (induction s t rule: codeUnitCompare.induct) auto

lemma codeUnitCompare_trans:
  "codeUnitCompare s t \<le> 0 \<Longrightarrow> codeUnitCompare t u \<le> 0 \<Longrightarrow> codeUnitCompare s u \<le> 0"
proof (induction s t arbitrary: u rule: codeUnitCompare.induct)
  case 1
  then show ?case by simp
next
  case (2 d t)
  then show ?case by (cases u) simp_all
next
  case (3 c s)
  then show ?case by simp
next
  case (4 c s d t)
  show ?case
  proof (cases u)
    case Nil
    then show ?thesis using "4.prems"(2) by simp
  next
    case (Cons e v)
    have cd: "\<not> (of_char d :: nat) < of_char c"
      using "4.prems"(1) by (auto split: if_splits)
    have de: "\<not> (of_char e :: nat) < of_char d"
      using "4.prems"(2) Cons by (auto split: if_splits)
    show ?thesis
    proof (cases "(of_char c :: nat) < of_char e")
      case True
      then show ?thesis using Cons by simp
    next
      case False
      then have eq: "(of_char c :: nat) = of_char d" "(of_char d :: nat) = of_char e"
        using cd de by linarith+
      have st: "codeUnitCompare s t \<le> 0" using "4.prems"(1) eq by simp
      have tv: "codeUnitCompare t v \<le> 0" using "4.prems"(2) Cons eq by simp
      have "codeUnitCompare s v \<le> 0"
        using "4.IH" [OF _ _ st tv] eq by simp
      then show ?thesis using Cons eq by simp
    qed
  qed
qed

lemma consistent_codeUnitCompare: "consistent_compare codeUnitCompare"
  unfolding consistent_compare_def
  using consistent_codeUnitCompare_sym codeUnitCompare_trans by blast

lemma consistent_compare_flip:
  "consistent_compare lc \<Longrightarrow> (0 \<le> lc s t) = (lc t s \<le> 0)"
  unfolding consistent_compare_def by (metis not_le)

lemma compare_total:
  assumes "consistent_compare lc"
  shows "compareResults lc f d a b \<le> 0 \<or> compareResults lc f d b a \<le> 0"
proof (cases "f = Output_name")
  case True
  define p where "p = lc (output_name a) (output_name b)"
  define q where "q = lc (output_name b) (output_name a)"
  have "(0 \<le> p) = (q \<le> 0)" "(0 \<le> q) = (p \<le> 0)"
    unfolding p_def q_def using consistent_compare_flip [OF assms] by blast+
  then have "(p \<le> 0 \<or> q \<le> 0) \<and> (0 \<le> p \<or> 0 \<le> q)" by linarith
  then show ?thesis
    using True unfolding p_def q_def by (cases d) (simp_all add: compareResults_def)
next
  case False
  then show ?thesis by (cases d) (auto simp: compareResults_def)
qed

lemma compare_trans:
  assumes "consistent_compare lc"
    and "compareResults lc f d a b \<le> 0" and "compareResults lc f d b c \<le> 0"
  shows "compareResults lc f d a c \<le> 0"
proof (cases "f = Output_name")
  case True
  have tr: "\<And>s t u. lc s t \<le> 0 \<Longrightarrow> lc t u \<le> 0 \<Longrightarrow> lc s u \<le> 0"
    using assms(1) unfolding consistent_compare_def by blast
  show ?thesis
  proof (cases d)
    case Asc
    then show ?thesis using True assms(2,3) tr by (simp add: compareResults_def)
  next
    case Desc
    have "0 \<le> lc (output_name a) (output_name b)" "0 \<le> lc (output_name b) (output_name c)"
      using True Desc assms(2,3) by (simp_all add: compareResults_def)
    then have "lc (output_name b) (output_name a) \<le> 0" "lc (output_name c) (output_name b) \<le> 0"
      using consistent_compare_flip [OF assms(1)] by blast+
    then have "lc (output_name c) (output_name a) \<le> 0" using tr by blast
    then have "0 \<le> lc (output_name a) (output_name c)"
      using consistent_compare_flip [OF assms(1)] by blast
    then show ?thesis
      using True Desc by (simp add: compareResults_def)
  qed
next
  case False
  then show ?thesis using assms(2,3) by (cases d) (auto simp: compareResults_def)
qed

text \<open>The host collation model is a consistent comparison.\<close>

lemma codeUnitCompare_zero: "codeUnitCompare s t = 0 \<Longrightarrow> s = t"
  by (induction s t rule: codeUnitCompare.induct) (auto split: if_splits)

lemma codeUnitCompare_refl: "codeUnitCompare s s = 0"
  by (induction s) simp_all

lemma codeUnitCompare_flip: "(0 \<le> codeUnitCompare s t) = (codeUnitCompare t s \<le> 0)"
  using consistent_codeUnitCompare_sym [of s t] consistent_codeUnitCompare_sym [of t s]
  by linarith

lemma hostCollation_sym: "(hostCollation s t < 0) = (0 < hostCollation t s)"
proof -
  define p where "p = codeUnitCompare (map lower s) (map lower t)"
  define p' where "p' = codeUnitCompare (map lower t) (map lower s)"
  define c where "c = codeUnitCompare s t"
  define c' where "c' = codeUnitCompare t s"
  have 1: "(p < 0) = (0 < p')" "(p' < 0) = (0 < p)"
    unfolding p_def p'_def by (rule consistent_codeUnitCompare_sym)+
  have 2: "(c < 0) = (0 < c')" "(c' < 0) = (0 < c)"
    unfolding c_def c'_def by (rule consistent_codeUnitCompare_sym)+
  have z: "(p = 0) = (p' = 0)" using 1 by linarith
  have "((if p = 0 then - c else p) < 0) = (0 < (if p' = 0 then - c' else p'))"
  proof (cases "p = 0")
    case True
    then have "p' = 0" using z by simp
    then show ?thesis using True 2 by simp
  next
    case False
    then have "p' \<noteq> 0" using z by simp
    then show ?thesis using False 1 by simp
  qed
  then show ?thesis
    unfolding hostCollation_def Let_def p_def p'_def c_def c'_def .
qed


lemma hostCollation_trans:
  assumes "hostCollation s t \<le> 0" and "hostCollation t u \<le> 0"
  shows "hostCollation s u \<le> 0"
proof -
  let ?P = "\<lambda>a b. codeUnitCompare (map lower a) (map lower b)"
  have hc: "\<And>a b. hostCollation a b = (if ?P a b = 0 then - codeUnitCompare a b else ?P a b)"
    by (simp add: hostCollation_def Let_def)
  have st: "?P s t \<le> 0"
    using assms(1) unfolding hc by (cases "?P s t = 0") simp_all
  have tu: "?P t u \<le> 0"
    using assms(2) unfolding hc by (cases "?P t u = 0") simp_all
  have su: "?P s u \<le> 0" using st tu by (rule codeUnitCompare_trans)
  show ?thesis
  proof (cases "?P s u = 0")
    case False
    then show ?thesis using su unfolding hc by simp
  next
    case True
    then have eq: "map lower s = map lower u" by (rule codeUnitCompare_zero)
    have "?P t s \<le> 0" using tu unfolding eq .
    then have "0 \<le> ?P s t" using codeUnitCompare_flip by blast
    then have st0: "?P s t = 0" using st by linarith
    then have eq2: "map lower s = map lower t" by (rule codeUnitCompare_zero)
    then have tu0: "?P t u = 0" using True by simp
    have "0 \<le> codeUnitCompare s t" "0 \<le> codeUnitCompare t u"
      using assms st0 tu0 unfolding hc by simp_all
    then have "codeUnitCompare t s \<le> 0" "codeUnitCompare u t \<le> 0"
      using codeUnitCompare_flip by blast+
    then have "codeUnitCompare u s \<le> 0"
      using codeUnitCompare_trans by blast
    then have "0 \<le> codeUnitCompare s u"
      using codeUnitCompare_flip by blast
    then show ?thesis using True unfolding hc by simp
  qed
qed

lemma consistent_hostCollation: "consistent_compare hostCollation"
  unfolding consistent_compare_def
  using hostCollation_sym hostCollation_trans by blast

lemma collation_example:
  "hostCollation ''Plasmonic Metamaterials'' ''PPD Fullerene Fibers'' = -1"
  "hostCollation ''PPD Fullerene Fibers'' ''Plasmonic Metamaterials'' = 1"
  "codeUnitCompare ''PPD Fullerene Fibers'' ''Plasmonic Metamaterials'' = -1"
  "hostCollation ''Ferrogel'' ''Plasmonic Metamaterials'' = -1"
  "hostCollation ''Plasmonic Metamaterials'' ''Ferrogel'' = 1"
  "hostCollation ''Ferrogel'' ''PPD Fullerene Fibers'' = -1"
  "hostCollation ''PPD Fullerene Fibers'' ''Ferrogel'' = 1"
  by (simp_all add: hostCollation_def lower_def Let_def)

text \<open>
  On a numeric field the model agrees with the stable key sort of the list library, and
  its result is determined by being a sorted, stable rearrangement of the input.
\<close>

lemma sort_insert_insort_key:
  "(\<And>a b. (cmp a b \<le> 0) = (key a \<le> key b)) \<Longrightarrow> sort_insert cmp x ys = insort_key key x ys"
  by (induction ys) simp_all

lemma array_sort_sort_key:
  assumes "\<And>a b. (cmp a b \<le> 0) = (key a \<le> (key b :: real))"
  shows "array_sort cmp xs = sort_key key xs"
proof (induction xs)
  case Nil
  show ?case by simp
next
  case (Cons x xs)
  have "sort_insert cmp x (sort_key key xs) = insort_key key x (sort_key key xs)"
    using assms by (rule sort_insert_insort_key)
  then show ?case using Cons by (simp add: sort_key_def)
qed

lemma ranker_numeric_sort_key:
  "f \<noteq> Output_name \<Longrightarrow> getSortedResults lc f d xs = sort_key (ranking_key f d) xs"
  unfolding getSortedResults_def
  by (rule array_sort_sort_key) (cases d; simp add: compareResults_def ranking_key_def)

lemma ranker_numeric_unique:
  assumes "f \<noteq> Output_name"
    and "mset ys = mset xs"
    and "sorted (map (ranking_key f d) ys)"
    and "\<And>k. k \<in> set ys \<Longrightarrow>
          filter (\<lambda>x. ranking_key f d k = ranking_key f d x) ys =
          filter (\<lambda>x. ranking_key f d k = ranking_key f d x) xs"
  shows "getSortedResults lc f d xs = ys"
  unfolding ranker_numeric_sort_key [OF assms(1)]
  using assms(2,4,3) by (rule properties_for_sort_key)


section \<open>Claims about the Result Ranker\<close>

text \<open>
  Claim C1 (as amended).  Three rows with margins 10, -5 and 40, ranked by margin in
  descending direction, come out in the order 40, 10, -5, whatever their other fields are.
  Ranked by output name in ascending direction, any list of rows comes out as a
  rearrangement of the input ordered by the host's string comparison
  \<^verbatim>\<open>localeCompare\<close> on the output names, whichever consistent comparison the host
  supplies.  That order is the locale's collation, not the lexicographic order of the code
  units (see the counterexample below).
\<close>

theorem C1_margin_desc_and_name_asc:
  "getSortedResults lc Margin Desc
      [a\<lparr>margin := 10\<rparr>, b\<lparr>margin := -5\<rparr>, c\<lparr>margin := 40\<rparr>]
     = [c\<lparr>margin := 40\<rparr>, a\<lparr>margin := 10\<rparr>, b\<lparr>margin := -5\<rparr>]
   \<and> (consistent_compare lc \<longrightarrow>
        sorted_wrt (\<lambda>x y. lc (output_name x) (output_name y) \<le> 0)
          (getSortedResults lc Output_name Asc xs)
        \<and> mset (getSortedResults lc Output_name Asc xs) = mset xs)"
proof (intro conjI impI)
  show "getSortedResults lc Margin Desc
      [a\<lparr>margin := 10\<rparr>, b\<lparr>margin := -5\<rparr>, c\<lparr>margin := 40\<rparr>]
     = [c\<lparr>margin := 40\<rparr>, a\<lparr>margin := 10\<rparr>, b\<lparr>margin := -5\<rparr>]"
    by (simp add: getSortedResults_def compareResults_def)
next
  assume lc: "consistent_compare lc"
  have "sorted_wrt (\<lambda>x y. compareResults lc Output_name Asc x y \<le> 0)
          (array_sort (compareResults lc Output_name Asc) xs)"
    by (rule sorted_array_sort) (rule compare_total [OF lc], rule compare_trans [OF lc])
  then show "sorted_wrt (\<lambda>x y. lc (output_name x) (output_name y) \<le> 0)
          (getSortedResults lc Output_name Asc xs)"
    by (simp add: getSortedResults_def compareResults_def)
next
  show "mset (getSortedResults lc Output_name Asc xs) = mset xs"
    by (simp add: getSortedResults_def mset_array_sort)
qed

text \<open>
  The same at concrete rows, with the host collation as the string comparison.
\<close>

theorem C1_witness:
  "consistent_compare hostCollation \<and>
   getSortedResults hostCollation Margin Desc
      [example_result 1 ''PPD Fullerene Fibers'' 10, example_result 2 ''Ferrogel'' (-5),
       example_result 3 ''Plasmonic Metamaterials'' 40]
     = [example_result 3 ''Plasmonic Metamaterials'' 40,
        example_result 1 ''PPD Fullerene Fibers'' 10, example_result 2 ''Ferrogel'' (-5)] \<and>
   getSortedResults hostCollation Output_name Asc
      [example_result 1 ''PPD Fullerene Fibers'' 10, example_result 2 ''Ferrogel'' (-5),
       example_result 3 ''Plasmonic Metamaterials'' 40]
     = [example_result 2 ''Ferrogel'' (-5), example_result 3 ''Plasmonic Metamaterials'' 40,
        example_result 1 ''PPD Fullerene Fibers'' 10] \<and>
   sorted_wrt (\<lambda>x y. hostCollation (output_name x) (output_name y) \<le> 0)
     (getSortedResults hostCollation Output_name Asc
        [example_result 1 ''PPD Fullerene Fibers'' 10, example_result 2 ''Ferrogel'' (-5),
         example_result 3 ''Plasmonic Metamaterials'' 40])"
proof -
  have h: "consistent_compare hostCollation" by (rule consistent_hostCollation)
  have m: "getSortedResults hostCollation Margin Desc
      [(example_result 1 ''PPD Fullerene Fibers'' 10)\<lparr>margin := 10\<rparr>,
       (example_result 2 ''Ferrogel'' (-5))\<lparr>margin := -5\<rparr>,
       (example_result 3 ''Plasmonic Metamaterials'' 40)\<lparr>margin := 40\<rparr>]
     = [(example_result 3 ''Plasmonic Metamaterials'' 40)\<lparr>margin := 40\<rparr>,
        (example_result 1 ''PPD Fullerene Fibers'' 10)\<lparr>margin := 10\<rparr>,
        (example_result 2 ''Ferrogel'' (-5))\<lparr>margin := -5\<rparr>]"
    using C1_margin_desc_and_name_asc
      [of hostCollation "example_result 1 ''PPD Fullerene Fibers'' 10"
          "example_result 2 ''Ferrogel'' (-5)"
          "example_result 3 ''Plasmonic Metamaterials'' 40"] by blast
  have s: "sorted_wrt (\<lambda>x y. hostCollation (output_name x) (output_name y) \<le> 0)
     (getSortedResults hostCollation Output_name Asc
        [example_result 1 ''PPD Fullerene Fibers'' 10, example_result 2 ''Ferrogel'' (-5),
         example_result 3 ''Plasmonic Metamaterials'' 40])"
    using C1_margin_desc_and_name_asc [of hostCollation] h by blast
  have n: "getSortedResults hostCollation Output_name Asc
      [example_result 1 ''PPD Fullerene Fibers'' 10, example_result 2 ''Ferrogel'' (-5),
       example_result 3 ''Plasmonic Metamaterials'' 40]
     = [example_result 2 ''Ferrogel'' (-5), example_result 3 ''Plasmonic Metamaterials'' 40,
        example_result 1 ''PPD Fullerene Fibers'' 10]"
    by (simp add: getSortedResults_def compareResults_def example_result_def collation_example)
  show ?thesis using h m s n by (simp add: example_result_def)
qed

text \<open>
  The claim as first stated, with "lexicographically" for the order of the names, fails:
  ranked by output name in ascending direction, "Plasmonic Metamaterials" comes before
  "PPD Fullerene Fibers" (l before p, case set aside), while in the lexicographic order of
  the code units "PPD Fullerene Fibers" is first (P before l).  The ranked list is not in
  lexicographic order.
\<close>

theorem C1_counterexample:
  "getSortedResults hostCollation Output_name Asc
      [example_result 1 ''PPD Fullerene Fibers'' 10,
       example_result 2 ''Plasmonic Metamaterials'' 20]
     = [example_result 2 ''Plasmonic Metamaterials'' 20,
        example_result 1 ''PPD Fullerene Fibers'' 10]
   \<and> codeUnitCompare ''PPD Fullerene Fibers'' ''Plasmonic Metamaterials'' < 0
   \<and> \<not> sorted_wrt (\<lambda>x y. codeUnitCompare (output_name x) (output_name y) \<le> 0)
         (getSortedResults hostCollation Output_name Asc
            [example_result 1 ''PPD Fullerene Fibers'' 10,
             example_result 2 ''Plasmonic Metamaterials'' 20])"
proof -
  have n: "getSortedResults hostCollation Output_name Asc
      [example_result 1 ''PPD Fullerene Fibers'' 10,
       example_result 2 ''Plasmonic Metamaterials'' 20]
     = [example_result 2 ''Plasmonic Metamaterials'' 20,
        example_result 1 ''PPD Fullerene Fibers'' 10]"
    by (simp add: getSortedResults_def compareResults_def example_result_def collation_example)
  have c: "codeUnitCompare ''Plasmonic Metamaterials'' ''PPD Fullerene Fibers'' = 1"
    by simp
  show ?thesis
    unfolding n using c by (simp add: example_result_def collation_example)
qed

text \<open>
  Claim C2 (as amended).  The sort field is one of exactly six values and the direction one
  of two.  In ascending direction the comparator is the host's string comparison
  \<^verbatim>\<open>localeCompare\<close> of the two output names for the name field (the locale's collation, not
  a lexicographic comparison of code units), and the numeric difference of the two field
  values for each of the other five fields; the descending direction negates it.  So a
  numeric field puts a row first exactly when its value is smaller (ascending) or larger
  (descending), and the name field exactly when the host's comparison says so.  The ranker
  sorts with that comparator.
\<close>

theorem C2_six_fields_and_comparison:
  "(UNIV :: SortField set) =
     {Output_name, Output_quantity, Input_cost, Output_value, Profit, Margin}
   \<and> distinct [Output_name, Output_quantity, Input_cost, Output_value, Profit, Margin]
   \<and> (UNIV :: SortDirection set) = {Asc, Desc} \<and> Asc \<noteq> Desc
   \<and> compareResults lc Output_name Asc a b = lc (output_name a) (output_name b)
   \<and> compareResults lc Output_quantity Asc a b = output_quantity a - output_quantity b
   \<and> compareResults lc Input_cost Asc a b = input_cost a - input_cost b
   \<and> compareResults lc Output_value Asc a b = output_value a - output_value b
   \<and> compareResults lc Profit Asc a b = profit a - profit b
   \<and> compareResults lc Margin Asc a b = margin a - margin b
   \<and> compareResults lc f Desc a b = - compareResults lc f Asc a b
   \<and> (compareResults lc f d a b < 0) =
       (if f = Output_name
        then (if d = Asc then lc (output_name a) (output_name b) < 0
              else 0 < lc (output_name a) (output_name b))
        else (if d = Asc then numeric_field f a < numeric_field f b
              else numeric_field f b < numeric_field f a))
   \<and> (compareResults lc f d a b = 0) =
       (if f = Output_name then lc (output_name a) (output_name b) = 0
        else numeric_field f a = numeric_field f b)
   \<and> getSortedResults lc f d xs = array_sort (compareResults lc f d) xs"
proof -
  have u1: "(UNIV :: SortField set) =
     {Output_name, Output_quantity, Input_cost, Output_value, Profit, Margin}"
  proof (rule set_eqI)
    fix x :: SortField
    show "x \<in> UNIV \<longleftrightarrow>
      x \<in> {Output_name, Output_quantity, Input_cost, Output_value, Profit, Margin}"
      by (cases x) simp_all
  qed
  have u2: "(UNIV :: SortDirection set) = {Asc, Desc}"
  proof (rule set_eqI)
    fix x :: SortDirection
    show "x \<in> UNIV \<longleftrightarrow> x \<in> {Asc, Desc}" by (cases x) simp_all
  qed
  have lt: "(compareResults lc f d a b < 0) =
       (if f = Output_name
        then (if d = Asc then lc (output_name a) (output_name b) < 0
              else 0 < lc (output_name a) (output_name b))
        else (if d = Asc then numeric_field f a < numeric_field f b
              else numeric_field f b < numeric_field f a))"
    by (cases d) (simp_all add: compareResults_def)
  have eq: "(compareResults lc f d a b = 0) =
       (if f = Output_name then lc (output_name a) (output_name b) = 0
        else numeric_field f a = numeric_field f b)"
    by (cases d) (simp_all add: compareResults_def)
  show ?thesis
    unfolding u1 [symmetric] u2 [symmetric] lt eq
    by (simp add: compareResults_def getSortedResults_def)
qed

text \<open>
  The claim as first stated, with a lexicographic comparison of the names, fails: on the
  rows named "PPD Fullerene Fibers" and "Plasmonic Metamaterials" the ranker's ascending
  name comparison is positive (the first row goes after the second), while the
  lexicographic comparison of the two names is negative.
\<close>

theorem C2_counterexample:
  "0 < compareResults hostCollation Output_name Asc
         (example_result 1 ''PPD Fullerene Fibers'' 10)
         (example_result 2 ''Plasmonic Metamaterials'' 20)
   \<and> codeUnitCompare
         (output_name (example_result 1 ''PPD Fullerene Fibers'' 10))
         (output_name (example_result 2 ''Plasmonic Metamaterials'' 20)) < 0"
  by (simp add: compareResults_def example_result_def collation_example)

text \<open>
  Claim C3.  The ranking is stable, for every list, field and direction: rows that compare
  equal to each other keep the order they had in the input.  Stated for any class \<open>P\<close> of
  rows whose members all compare equal: the members of \<open>P\<close> occur in the output in exactly
  the sequence in which they occur in the input.
\<close>

theorem C3_sort_is_stable:
  "\<forall>a\<in>set xs. \<forall>b\<in>set xs. P a \<longrightarrow> P b \<longrightarrow> compareResults lc f d a b = 0 \<Longrightarrow>
   filter P (getSortedResults lc f d xs) = filter P xs"
proof -
  assume "\<forall>a\<in>set xs. \<forall>b\<in>set xs. P a \<longrightarrow> P b \<longrightarrow> compareResults lc f d a b = 0"
  then have "\<forall>a\<in>set xs. \<forall>b\<in>set xs. P a \<longrightarrow> P b \<longrightarrow> compareResults lc f d a b \<le> 0"
    by simp
  then show ?thesis
    unfolding getSortedResults_def by (rule filter_array_sort)
qed

text \<open>Two rows tie on margin 7; the later one stays after the earlier one.\<close>

theorem C3_witness:
  "compareResults codeUnitCompare Margin Desc
      (example_result 1 ''A'' 7) (example_result 3 ''C'' 7) = 0
   \<and> compareResults codeUnitCompare Margin Desc
      (example_result 3 ''C'' 7) (example_result 1 ''A'' 7) = 0
   \<and> getSortedResults codeUnitCompare Margin Desc
        [example_result 1 ''A'' 7, example_result 2 ''B'' 9, example_result 3 ''C'' 7]
      = [example_result 2 ''B'' 9, example_result 1 ''A'' 7, example_result 3 ''C'' 7]
   \<and> filter (\<lambda>r. margin r = 7)
        (getSortedResults codeUnitCompare Margin Desc
          [example_result 1 ''A'' 7, example_result 2 ''B'' 9, example_result 3 ''C'' 7])
      = [example_result 1 ''A'' 7, example_result 3 ''C'' 7]"
proof -
  have h: "\<forall>a\<in>set [example_result 1 ''A'' 7, example_result 2 ''B'' 9, example_result 3 ''C'' 7].
     \<forall>b\<in>set [example_result 1 ''A'' 7, example_result 2 ''B'' 9, example_result 3 ''C'' 7].
       margin a = 7 \<longrightarrow> margin b = 7 \<longrightarrow> compareResults codeUnitCompare Margin Desc a b = 0"
    by (simp add: compareResults_def example_result_def)
  have e: "compareResults codeUnitCompare Margin Desc
      (example_result 1 ''A'' 7) (example_result 3 ''C'' 7) = 0"
    "compareResults codeUnitCompare Margin Desc
      (example_result 3 ''C'' 7) (example_result 1 ''A'' 7) = 0"
    by (simp_all add: compareResults_def example_result_def)
  have g: "getSortedResults codeUnitCompare Margin Desc
        [example_result 1 ''A'' 7, example_result 2 ''B'' 9, example_result 3 ''C'' 7]
      = [example_result 2 ''B'' 9, example_result 1 ''A'' 7, example_result 3 ''C'' 7]"
    by (simp add: getSortedResults_def compareResults_def example_result_def)
  have "filter (\<lambda>r. margin r = 7)
        (getSortedResults codeUnitCompare Margin Desc
          [example_result 1 ''A'' 7, example_result 2 ''B'' 9, example_result 3 ''C'' 7])
      = filter (\<lambda>r. margin r = 7)
          [example_result 1 ''A'' 7, example_result 2 ''B'' 9, example_result 3 ''C'' 7]"
    using C3_sort_is_stable [OF h] .
  then show ?thesis using e g by (simp add: example_result_def)
qed

text \<open>
  Claim C4.  Ranking has no effect on its input: in a well-formed store, the call returns a
  reference to a newly allocated array (not the input's reference, and unused before) that
  holds a permutation of the input, and every array that existed before the call, the
  input among them, has the contents and order it had.
\<close>

theorem C4_ranking_leaves_input_unchanged:
  "heap_ok h \<Longrightarrow> arrays h results = Some xs \<Longrightarrow>
   \<exists>r h'. getSortedResults_heap lc f d h results = Some (r, h')
     \<and> r \<noteq> results \<and> arrays h r = None
     \<and> arrays h' r = Some (getSortedResults lc f d xs)
     \<and> mset (getSortedResults lc f d xs) = mset xs
     \<and> arrays h' results = Some xs
     \<and> (\<forall>q. q \<noteq> r \<longrightarrow> arrays h' q = arrays h q)"
proof -
  assume ok: "heap_ok h" and xs: "arrays h results = Some xs"
  have fresh: "arrays h (next_ref h) = None"
    using ok unfolding heap_ok_def by simp
  then have ne: "next_ref h \<noteq> results" using xs by auto
  show ?thesis
    using xs fresh ne
    by (simp add: getSortedResults_heap_def spread_copy_def sort_in_place_def
        getSortedResults_def mset_array_sort)
qed

text \<open>The call on the example store: the copy is ranked, the array at 0 is as before.\<close>

theorem C4_witness:
  "heap_ok example_heap
   \<and> arrays example_heap 0 = Some [example_result 1 ''A'' 7, example_result 2 ''B'' 9]
   \<and> (\<exists>r h'. getSortedResults_heap codeUnitCompare Margin Desc example_heap 0 = Some (r, h')
        \<and> r \<noteq> 0
        \<and> arrays h' r = Some [example_result 2 ''B'' 9, example_result 1 ''A'' 7]
        \<and> arrays h' 0 = Some [example_result 1 ''A'' 7, example_result 2 ''B'' 9])"
proof -
  have ok: "heap_ok example_heap" by (simp add: heap_ok_def example_heap_def)
  have xs: "arrays example_heap 0 = Some [example_result 1 ''A'' 7, example_result 2 ''B'' 9]"
    by (simp add: example_heap_def)
  have g: "getSortedResults codeUnitCompare Margin Desc
        [example_result 1 ''A'' 7, example_result 2 ''B'' 9]
      = [example_result 2 ''B'' 9, example_result 1 ''A'' 7]"
    by (simp add: getSortedResults_def compareResults_def example_result_def)
  show ?thesis
    using ok xs C4_ranking_leaves_input_unchanged [OF ok xs, of codeUnitCompare Margin Desc]
    unfolding g by blast
qed


section \<open>Properties of treeToFlow\<close>

lemma counter_treeToFlow:
  "idCounter (treeToFlow t f parent st) = idCounter st + tree_size t"
  "idCounter (treeToFlow_children cs f pid st) = idCounter st + trees_size cs"
  by (induction t f parent st and cs f pid st rule: treeToFlow_treeToFlow_children.induct)
     (simp_all add: Let_def split: option.splits)

lemma truthy_nodeId [simp]: "truthy (Some (nodeId_of p)) = Some (nodeId_of p)"
  by (simp add: truthy_def nodeId_of_def)

lemma ids_treeToFlow:
  "map flow_id (nodes (treeToFlow t f parent st)) =
     map flow_id (nodes st) @ map nodeId_of [idCounter st ..< idCounter st + tree_size t]"
  "map flow_id (nodes (treeToFlow_children cs f pid st)) =
     map flow_id (nodes st) @ map nodeId_of [idCounter st ..< idCounter st + trees_size cs]"
proof (induction t f parent st and cs f pid st rule: treeToFlow_treeToFlow_children.induct)
  case (1 nm i qty src up tp rn cs formatIsk parentId st)
  have "[idCounter st ..< idCounter st + Suc (trees_size cs)] =
        idCounter st # [Suc (idCounter st) ..< Suc (idCounter st) + trees_size cs]"
    by (simp add: upt_rec)
  then show ?case
    by (simp add: "1.IH" Let_def nodeId_of_def split: option.splits)
next
  case (2 formatIsk nodeId st)
  show ?case by simp
next
  case (3 child rest formatIsk nodeId st)
  have "[idCounter st ..< idCounter st + (tree_size child + trees_size rest)] =
        [idCounter st ..< idCounter st + tree_size child] @
        [idCounter st + tree_size child ..< idCounter st + tree_size child + trees_size rest]"
    by (metis add.assoc le_add1 upt_add_eq_append)
  then show ?case
    by (simp add: "3.IH" counter_treeToFlow)
qed

lemma data_treeToFlow:
  "map data (nodes (treeToFlow t f parent st)) =
     map data (nodes st) @ map (node_data f) (preorder t)"
  "map data (nodes (treeToFlow_children cs f pid st)) =
     map data (nodes st) @ map (node_data f) (preorder_list cs)"
  by (induction t f parent st and cs f pid st rule: treeToFlow_treeToFlow_children.induct)
     (simp_all add: Let_def node_data_def split: option.splits)

lemma ends_treeToFlow:
  "map edge_ends (edges (treeToFlow t f parent st)) =
     map edge_ends (edges st)
     @ (case truthy parent of None \<Rightarrow> [] | Some p \<Rightarrow> [(nodeId_of (idCounter st), p)])
     @ map link_ends (parent_links (idCounter st) t)"
  "\<forall>p. pid = nodeId_of p \<longrightarrow>
     map edge_ends (edges (treeToFlow_children cs f pid st)) =
       map edge_ends (edges st) @ map link_ends (child_links p (idCounter st) cs)"
proof (induction t f parent st and cs f pid st rule: treeToFlow_treeToFlow_children.induct)
  case (1 nm i qty src up tp rn cs formatIsk parentId st)
  show ?case
    using "1.IH" [OF refl refl refl refl]
    by (simp add: Let_def nodeId_of_def edge_ends_def split: option.splits)
next
  case (2 formatIsk nodeId st)
  show ?case by simp
next
  case (3 child rest formatIsk nodeId st)
  show ?case
  proof (intro allI impI)
    fix p
    assume pid: "nodeId = nodeId_of p"
    have rest: "map edge_ends
        (edges (treeToFlow_children rest formatIsk nodeId
                  (treeToFlow child formatIsk (Some nodeId) st))) =
      map edge_ends (edges (treeToFlow child formatIsk (Some nodeId) st)) @
      map link_ends (child_links p (idCounter st + tree_size child) rest)"
      using "3.IH"(2) pid by (simp add: counter_treeToFlow)
    show "map edge_ends (edges (treeToFlow_children (child # rest) formatIsk nodeId st)) =
      map edge_ends (edges st) @ map link_ends (child_links p (idCounter st) (child # rest))"
      using rest "3.IH"(1) pid by (simp add: link_ends_def)
  qed
qed


lemma decimal_not_Nil: "decimal n \<noteq> []"
  by (subst decimal.simps) simp

lemma digit_char_inj:
  "a < 10 \<Longrightarrow> b < 10 \<Longrightarrow> (char_of (48 + a) :: char) = char_of (48 + b) \<Longrightarrow> a = (b :: nat)"
proof -
  assume a: "a < 10" and b: "b < 10" and eq: "(char_of (48 + a) :: char) = char_of (48 + b)"
  have "(of_char (char_of (48 + a) :: char) :: nat) = of_char (char_of (48 + b) :: char)"
    using eq by simp
  then have "(48 + a) mod 256 = (48 + b) mod 256"
    by (simp only: of_char_of)
  then show "a = b" using a b by simp
qed

lemma decimal_inj: "decimal n = decimal m \<Longrightarrow> n = m"
proof (induction n arbitrary: m rule: decimal.induct)
  case (1 n)
  show ?case
  proof (cases "n < 10")
    case True
    then have n: "decimal n = [char_of (48 + n)]" by (subst decimal.simps) simp
    show ?thesis
    proof (cases "m < 10")
      case mlt: True
      then have "decimal m = [char_of (48 + m)]" by (subst decimal.simps) simp
      then show ?thesis using n "1.prems" True mlt digit_char_inj by simp
    next
      case False
      then have "decimal m = decimal (m div 10) @ [char_of (48 + m mod 10)]"
        by (subst decimal.simps) simp
      then show ?thesis using n "1.prems" decimal_not_Nil [of "m div 10"] by simp
    qed
  next
    case False
    then have n: "decimal n = decimal (n div 10) @ [char_of (48 + n mod 10)]"
      by (subst decimal.simps) simp
    show ?thesis
    proof (cases "m < 10")
      case True
      then have "decimal m = [char_of (48 + m)]" by (subst decimal.simps) simp
      then show ?thesis using n "1.prems" decimal_not_Nil [of "n div 10"] by simp
    next
      case mge: False
      then have "decimal m = decimal (m div 10) @ [char_of (48 + m mod 10)]"
        by (subst decimal.simps) simp
      then have eq: "decimal (n div 10) = decimal (m div 10)"
        "(char_of (48 + n mod 10) :: char) = char_of (48 + m mod 10)"
        using n "1.prems" by simp_all
      have d: "n div 10 = m div 10" using "1.IH" [OF False eq(1)] .
      have r: "n mod 10 = m mod 10" using digit_char_inj [OF _ _ eq(2)] by simp
      show ?thesis using d r by (metis div_mult_mod_eq)
    qed
  qed
qed

lemma nodeId_of_inj: "inj nodeId_of"
  by (rule injI) (simp add: nodeId_of_def decimal_inj)

lemma length_preorder:
  "length (preorder t) = tree_size t"
  "length (preorder_list cs) = trees_size cs"
  by (induction t and cs rule: tree_size_trees_size.induct) simp_all

lemma sources_of_links:
  "map fst (parent_links k t) = [Suc k ..< k + tree_size t]"
  "map fst (child_links p k cs) = [k ..< k + trees_size cs]"
proof (induction k t and p k cs rule: parent_links_child_links.induct)
  case (1 k nm i qty src up tp rn cs)
  then show ?case by simp
next
  case (2 p k)
  show ?case by simp
next
  case (3 p k c cs)
  have "[k ..< k + (tree_size c + trees_size cs)] =
        k # [Suc k ..< k + tree_size c] @ [k + tree_size c ..< k + tree_size c + trees_size cs]"
  proof -
    have "0 < tree_size c" by (cases c) simp
    then have "[k ..< k + tree_size c] = k # [Suc k ..< k + tree_size c]"
      by (simp add: upt_rec)
    moreover have "[k ..< k + (tree_size c + trees_size cs)] =
        [k ..< k + tree_size c] @ [k + tree_size c ..< k + tree_size c + trees_size cs]"
      by (metis add.assoc le_add1 upt_add_eq_append)
    ultimately show ?thesis by simp
  qed
  then show ?case using 3 by simp
qed

lemma preorder_hd: "preorder t ! 0 = t"
  by (cases t) simp

lemma preorder_not_Nil: "preorder t \<noteq> []"
  by (cases t) simp

lemma links_are_children:
  "\<forall>l\<in>set (parent_links k t).
      k \<le> snd l \<and> snd l < fst l \<and> fst l < k + tree_size t
      \<and> preorder t ! (fst l - k) \<in> set (children (preorder t ! (snd l - k)))"
  "p < k \<Longrightarrow>
   \<forall>l\<in>set (child_links p k cs).
      k \<le> fst l \<and> fst l < k + trees_size cs
      \<and> (if snd l = p then preorder_list cs ! (fst l - k) \<in> set cs
          else k \<le> snd l \<and> snd l < fst l
               \<and> preorder_list cs ! (fst l - k)
                    \<in> set (children (preorder_list cs ! (snd l - k))))"
proof (induction k t and p k cs rule: parent_links_child_links.induct)
  case (1 k nm i qty src up tp rn cs)
  let ?t = "ReactionTreeNode nm i qty src up tp rn cs"
  show ?case
  proof
    fix l assume l: "l \<in> set (parent_links k ?t)"
    then have m: "l \<in> set (child_links k (Suc k) cs)" by simp
    have ih: "Suc k \<le> fst l \<and> fst l < Suc k + trees_size cs
      \<and> (if snd l = k then preorder_list cs ! (fst l - Suc k) \<in> set cs
          else Suc k \<le> snd l \<and> snd l < fst l
               \<and> preorder_list cs ! (fst l - Suc k)
                    \<in> set (children (preorder_list cs ! (snd l - Suc k))))"
      using "1.IH" m by simp
    have c: "preorder ?t ! (fst l - k) = preorder_list cs ! (fst l - Suc k)"
      using ih by (simp add: nth_Cons')
    show "k \<le> snd l \<and> snd l < fst l \<and> fst l < k + tree_size ?t
      \<and> preorder ?t ! (fst l - k) \<in> set (children (preorder ?t ! (snd l - k)))"
    proof (cases "snd l = k")
      case True
      then show ?thesis using ih c by simp
    next
      case False
      then have "preorder ?t ! (snd l - k) = preorder_list cs ! (snd l - Suc k)"
        using ih by (simp add: nth_Cons')
      then show ?thesis using False ih c by simp
    qed
  qed
next
  case (2 p k)
  show ?case by simp
next
  case (3 p k c cs)
  have len: "length (preorder c) = tree_size c" by (rule length_preorder(1))
  have pos: "0 < tree_size c" by (cases c) simp
  show ?case
  proof
    fix l assume "l \<in> set (child_links p k (c # cs))"
    then consider (top) "l = (k, p)" | (inner) "l \<in> set (parent_links k c)"
      | (later) "l \<in> set (child_links p (k + tree_size c) cs)"
      by auto
    then show "k \<le> fst l \<and> fst l < k + trees_size (c # cs)
      \<and> (if snd l = p then preorder_list (c # cs) ! (fst l - k) \<in> set (c # cs)
          else k \<le> snd l \<and> snd l < fst l
               \<and> preorder_list (c # cs) ! (fst l - k)
                    \<in> set (children (preorder_list (c # cs) ! (snd l - k))))"
    proof cases
      case top
      then show ?thesis
        using pos preorder_hd [of c] len by (simp add: nth_append)
    next
      case inner
      then have ih: "k \<le> snd l \<and> snd l < fst l \<and> fst l < k + tree_size c
        \<and> preorder c ! (fst l - k) \<in> set (children (preorder c ! (snd l - k)))"
        using "3.IH"(1) by blast
      then have ne: "snd l \<noteq> p" using "3.prems" by simp
      have "fst l - k < tree_size c" "snd l - k < tree_size c"
        using ih by linarith+
      then show ?thesis using ne ih len by (simp add: nth_append)
    next
      case later
      have "p < k + tree_size c" using "3.prems" by simp
      then have ih: "k + tree_size c \<le> fst l \<and> fst l < k + tree_size c + trees_size cs
        \<and> (if snd l = p then preorder_list cs ! (fst l - (k + tree_size c)) \<in> set cs
            else k + tree_size c \<le> snd l \<and> snd l < fst l
                 \<and> preorder_list cs ! (fst l - (k + tree_size c))
                      \<in> set (children (preorder_list cs ! (snd l - (k + tree_size c)))))"
        using "3.IH"(2) later by blast
      have nf: "\<not> fst l - k < tree_size c" "fst l - k - tree_size c = fst l - (k + tree_size c)"
        using ih by linarith+
      have f: "preorder_list (c # cs) ! (fst l - k) = preorder_list cs ! (fst l - (k + tree_size c))"
        using nf len by (simp add: nth_append)
      show ?thesis
      proof (cases "snd l = p")
        case True
        then show ?thesis using ih f by simp
      next
        case False
        then have "\<not> snd l - k < tree_size c"
          "snd l - k - tree_size c = snd l - (k + tree_size c)"
          using ih by (simp_all, linarith+)
        then have "preorder_list (c # cs) ! (snd l - k)
                   = preorder_list cs ! (snd l - (k + tree_size c))"
          using len by (simp add: nth_append)
        then show ?thesis using False ih f by simp
      qed
    qed
  qed
qed

text \<open>
  Claim C9.  For every tree, \<^verbatim>\<open>treeToFlow\<close> yields one flow node per tree node: as many
  nodes as the tree has, with the pairwise distinct ids node-0, node-1, ... in pre-order and
  the payload of the corresponding tree node.  It yields one edge per non-root node: the
  sources of the edges are, in order, the ids of all nodes but the root, and each edge
  leads from the id of a node to the id of the node whose child it is in the tree.  So a
  tree of n nodes gives n flow nodes and n - 1 edges.
\<close>

theorem C9_treeToFlow_nodes_and_edges:
  "length (fst (treeToFlow_top t f)) = tree_size t
   \<and> length (snd (treeToFlow_top t f)) = tree_size t - 1
   \<and> map flow_id (fst (treeToFlow_top t f)) = map nodeId_of [0 ..< tree_size t]
   \<and> distinct (map flow_id (fst (treeToFlow_top t f)))
   \<and> map data (fst (treeToFlow_top t f)) = map (node_data f) (preorder t)
   \<and> map edge_source (snd (treeToFlow_top t f)) = tl (map flow_id (fst (treeToFlow_top t f)))
   \<and> map edge_ends (snd (treeToFlow_top t f)) = map link_ends (parent_links 0 t)
   \<and> (\<forall>l\<in>set (parent_links 0 t).
         snd l < fst l \<and> fst l < tree_size t
         \<and> preorder t ! fst l \<in> set (children (preorder t ! snd l)))"
proof -
  let ?st = "treeToFlow t f None \<lparr>nodes = [], edges = [], idCounter = 0\<rparr>"
  have ids: "map flow_id (nodes ?st) = map nodeId_of [0 ..< tree_size t]"
    using ids_treeToFlow(1) [of t f None "\<lparr>nodes = [], edges = [], idCounter = 0\<rparr>"] by simp
  have ends: "map edge_ends (edges ?st) = map link_ends (parent_links 0 t)"
    using ends_treeToFlow(1) [of t f None "\<lparr>nodes = [], edges = [], idCounter = 0\<rparr>"]
    by (simp add: truthy_def)
  have dat: "map data (nodes ?st) = map (node_data f) (preorder t)"
    using data_treeToFlow(1) [of t f None "\<lparr>nodes = [], edges = [], idCounter = 0\<rparr>"] by simp
  have pos: "0 < tree_size t" by (cases t) simp
  have n: "length (nodes ?st) = tree_size t"
    using arg_cong [OF ids, of length] by simp
  have "length (map edge_ends (edges ?st)) = length (map fst (parent_links 0 t))"
    using ends by simp
  then have e: "length (edges ?st) = tree_size t - 1"
    by (simp add: sources_of_links)
  have dist: "distinct (map flow_id (nodes ?st))"
    unfolding ids by (simp add: distinct_map inj_on_def nodeId_of_def decimal_inj)
  have "map edge_source (edges ?st) = map fst (map edge_ends (edges ?st))"
    by (simp add: edge_ends_def)
  also have "\<dots> = map nodeId_of (map fst (parent_links 0 t))"
    unfolding ends by (simp add: link_ends_def)
  also have "\<dots> = map nodeId_of [Suc 0 ..< tree_size t]"
    by (simp add: sources_of_links)
  also have "\<dots> = tl (map nodeId_of [0 ..< tree_size t])"
    using pos by (simp add: upt_rec [of 0] map_tl)
  finally have src: "map edge_source (edges ?st) = tl (map flow_id (nodes ?st))"
    using ids by simp
  have par: "\<forall>l\<in>set (parent_links 0 t).
         snd l < fst l \<and> fst l < tree_size t
         \<and> preorder t ! fst l \<in> set (children (preorder t ! snd l))"
    using links_are_children(1) [of 0 t] by simp
  show ?thesis
    using n e ids dist dat src ends par by (simp add: treeToFlow_top_def Let_def)
qed

text \<open>
  The graph of the example tree: four nodes, three edges, and the edge of W (node-3) leads
  to Z (node-2), whose child W is.
\<close>

theorem C9_witness:
  "map flow_id (fst (treeToFlow_top example_tree (\<lambda>v. ''p''))) = [''node-0'', ''node-1'', ''node-2'', ''node-3'']
   \<and> map edge_ends (snd (treeToFlow_top example_tree (\<lambda>v. ''p'')))
       = [(''node-1'', ''node-0''), (''node-2'', ''node-0''), (''node-3'', ''node-2'')]
   \<and> parent_links 0 example_tree = [(1, 0), (2, 0), (3, 2)]
   \<and> preorder example_tree ! 3 \<in> set (children (preorder example_tree ! 2))"
proof -
  have pl: "parent_links 0 example_tree = [(1, 0), (2, 0), (3, 2)]"
    by (simp add: example_tree_def)
  have sz: "tree_size example_tree = 4"
    by (simp add: example_tree_def)
  have dg: "decimal 0 = ''0''" "decimal 1 = ''1''" "decimal 2 = ''2''" "decimal 3 = ''3''"
    "decimal (Suc (Suc 0)) = ''2''" "decimal (Suc (Suc (Suc 0))) = ''3''"
    by (simp_all add: decimal.simps char_of_def bit_simps)
  note c9 = C9_treeToFlow_nodes_and_edges [of example_tree "\<lambda>v. ''p''"]
  have ids: "map flow_id (fst (treeToFlow_top example_tree (\<lambda>v. ''p'')))
             = [''node-0'', ''node-1'', ''node-2'', ''node-3'']"
    using c9 dg unfolding sz by (simp add: nodeId_of_def upt_rec)
  have ends: "map edge_ends (snd (treeToFlow_top example_tree (\<lambda>v. ''p'')))
       = [(''node-1'', ''node-0''), (''node-2'', ''node-0''), (''node-3'', ''node-2'')]"
    using c9 dg unfolding pl by (simp add: link_ends_def nodeId_of_def)
  have "\<forall>l\<in>set (parent_links 0 example_tree).
         preorder example_tree ! fst l \<in> set (children (preorder example_tree ! snd l))"
    using c9 by blast
  then have "preorder example_tree ! 3 \<in> set (children (preorder example_tree ! 2))"
    unfolding pl by simp
  then show ?thesis using ids ends pl by simp
qed

section \<open>Properties of generateTextInstructions\<close>

lemma collect_moon:
  "moonMaterials (collectFromTree ls fx t st) =
     moonMaterials st @ map (moon_item fx) (filter (\<lambda>n. source n = Moon) (preorder t))"
  "moonMaterials (collectFromTree_forEach ls fx cs st) =
     moonMaterials st @ map (moon_item fx) (filter (\<lambda>n. source n = Moon) (preorder_list cs))"
  by (induction ls fx t st and ls fx cs st rule: collectFromTree_collectFromTree_forEach.induct)
     (simp_all add: Let_def moon_item_def)

lemma collect_buy:
  "buyMaterials (collectFromTree ls fx t st) =
     buyMaterials st @ map (moon_item fx) (filter (\<lambda>n. source n = Buy) (preorder t))"
  "buyMaterials (collectFromTree_forEach ls fx cs st) =
     buyMaterials st @ map (moon_item fx) (filter (\<lambda>n. source n = Buy) (preorder_list cs))"
  by (induction ls fx t st and ls fx cs st rule: collectFromTree_collectFromTree_forEach.induct)
     (simp_all add: Let_def moon_item_def)

lemma collect_react:
  "reactions (collectFromTree ls fx t st) =
     reactions st @ map (step_item ls) (filter is_react_step (preorder t))"
  "reactions (collectFromTree_forEach ls fx cs st) =
     reactions st @ map (step_item ls) (filter is_react_step (preorder_list cs))"
proof (induction ls fx t st and ls fx cs st rule: collectFromTree_collectFromTree_forEach.induct)
  case (1 toLocaleString toFixed2 nm i qty src up tp rn cs st)
  show ?case
    by (cases src) (simp_all add: "1.IH" Let_def step_item_def is_react_step_def)
next
  case (2 toLocaleString toFixed2 st)
  show ?case by simp
next
  case (3 toLocaleString toFixed2 child rest st)
  show ?case by (simp add: "3.IH")
qed

lemma map_enumerate_map:
  "map g (List.enumerate k (map f xs)) = map (\<lambda>p. g (fst p, f (snd p))) (List.enumerate k xs)"
  by (induction xs arbitrary: k) simp_all

lemma extract_block:
  "map (\<lambda>m. ''  '' @ item_name m @ '' x'' @ ls (item_qty m) @ '' (worth '' @ item_price m @ '')'')
       (map (moon_item fx) ns) = map (extract_line ls fx) ns"
  by (simp add: extract_line_def moon_item_def)

lemma purchase_block:
  "map (\<lambda>m. ''  '' @ item_name m @ '' x'' @ ls (item_qty m) @ '' for '' @ item_price m)
       (map (moon_item fx) ns) = map (purchase_line ls fx) ns"
  by (simp add: purchase_line_def moon_item_def)

lemma react_block:
  "map (\<lambda>(i, r). [''  '' @ decimal (i + 1) @ ''. '' @ join '' + '' (item_inputs r),
                   ''     -> '' @ item_output r @ '' x'' @ ls (reaction_qty r)])
       (List.enumerate 0 (rev (map (step_item ls) ns)))
   = map (react_step ls) (List.enumerate 0 (rev ns))"
proof -
  have "(\<lambda>p. (case (fst p, step_item ls (snd p)) of
                 (i, r) \<Rightarrow> [''  '' @ decimal (i + 1) @ ''. '' @ join '' + '' (item_inputs r),
                   ''     -> '' @ item_output r @ '' x'' @ ls (reaction_qty r)]))
        = react_step ls"
    by (rule ext) (simp add: react_step_def step_item_def)
  then show ?thesis
    by (simp only: rev_map map_enumerate_map)
qed

text \<open>The instructions for the example tree, with every number printed as q or p.\<close>

lemma text_instructions_example:
  "generateTextInstructions (\<lambda>v. ''q'') (\<lambda>v. ''p'') example_tree =
     [''EXTRACT FROM MOONS:'', ''  X xq (worth p ISK)'', '''',
      ''PURCHASE:'', ''  W xq for p ISK'', '''',
      ''REACT (in order):'',
      ''  1. W xq'', ''     -> Z xq'',
      ''  2. X xq + Z xq'', ''     -> Y xq'', '''',
      ''SELL: Y xq for p ISK'']"
proof -
  have dg: "decimal (Suc 0) = ''1''" "decimal 2 = ''2''" "decimal (Suc (Suc 0)) = ''2''"
    by (simp_all add: decimal.simps char_of_def bit_simps)
  show ?thesis
    by (simp add: generateTextInstructions_def example_tree_def Let_def formatIsk_def
        input_text_def dg)
qed

text \<open>
  Claim C10.  For every tree the instructions are, in this order: a section with one
  EXTRACT line for each node whose source is moon, a section with one PURCHASE line for
  each node whose source is buy, a section with one numbered REACT step for each node
  whose source is react or output and whose children list is not empty, the steps numbered
  from 1 in reverse pre-order, and last the SELL line with the name, quantity and total
  price of the root.  A section is left out when no node belongs to it.
\<close>

theorem C10_text_instructions:
  "generateTextInstructions ls fx t =
     block ''EXTRACT FROM MOONS:'' (filter (\<lambda>n. source n = Moon) (preorder t))
       (map (extract_line ls fx) (filter (\<lambda>n. source n = Moon) (preorder t)))
     @ block ''PURCHASE:'' (filter (\<lambda>n. source n = Buy) (preorder t))
       (map (purchase_line ls fx) (filter (\<lambda>n. source n = Buy) (preorder t)))
     @ block ''REACT (in order):'' (filter is_react_step (preorder t))
       (concat (map (react_step ls) (List.enumerate 0 (rev (filter is_react_step (preorder t))))))
     @ [sell_line ls fx t]
   \<and> last (generateTextInstructions ls fx t) = sell_line ls fx t"
proof -
  let ?c = "collectFromTree ls fx t \<lparr>moonMaterials = [], buyMaterials = [], reactions = []\<rparr>"
  have m: "moonMaterials ?c = map (moon_item fx) (filter (\<lambda>n. source n = Moon) (preorder t))"
    by (simp add: collect_moon)
  have b: "buyMaterials ?c = map (moon_item fx) (filter (\<lambda>n. source n = Buy) (preorder t))"
    by (simp add: collect_buy)
  have r: "reactions ?c = map (step_item ls) (filter is_react_step (preorder t))"
    by (simp add: collect_react)
  have eq: "generateTextInstructions ls fx t =
     block ''EXTRACT FROM MOONS:'' (filter (\<lambda>n. source n = Moon) (preorder t))
       (map (extract_line ls fx) (filter (\<lambda>n. source n = Moon) (preorder t)))
     @ block ''PURCHASE:'' (filter (\<lambda>n. source n = Buy) (preorder t))
       (map (purchase_line ls fx) (filter (\<lambda>n. source n = Buy) (preorder t)))
     @ block ''REACT (in order):'' (filter is_react_step (preorder t))
       (concat (map (react_step ls) (List.enumerate 0 (rev (filter is_react_step (preorder t))))))
     @ [sell_line ls fx t]"
    unfolding generateTextInstructions_def Let_def m b r extract_block purchase_block react_block
    by (simp add: block_def sell_line_def)
  show ?thesis unfolding eq by simp
qed

section \<open>Properties of handleGo\<close>

lemma handleGo_invokes:
  "moons s \<noteq> [] \<Longrightarrow> snd (handleGo reply now (s, invoked)) = invoked @ [''analyze_reactions'']"
  by (simp add: handleGo_def Let_def)

lemma handleGo_adds_tab:
  "moons s \<noteq> [] \<Longrightarrow>
   length (tabs (fst (handleGo (Inr rs) now (s, invoked)))) = Suc (length (tabs s))"
  by (simp add: handleGo_def Let_def)

text \<open>
  Claim C8.  When no moon is loaded, the handler sends nothing to the back end (the list of
  commands sent is unchanged), sets the error message "Add some moons first before
  analyzing" and returns: every other part of the state, the tabs among them, is as before.
\<close>

theorem C8_no_moons_no_analysis:
  "moons s = [] \<Longrightarrow>
   handleGo reply now (s, invoked) =
     (s\<lparr>errorMessage := Some ''Add some moons first before analyzing''\<rparr>, invoked)
   \<and> snd (handleGo reply now (s, invoked)) = invoked
   \<and> tabs (fst (handleGo reply now (s, invoked))) = tabs s
   \<and> errorMessage (fst (handleGo reply now (s, invoked))) =
       Some ''Add some moons first before analyzing''"
  by (simp add: handleGo_def)

text \<open>The handler on the initial state, where no moon is loaded.\<close>

theorem C8_witness:
  "moons initial_state = []
   \<and> handleGo (Inr [example_result 1 ''A'' 7]) 1700000000000 (initial_state, []) =
     (initial_state\<lparr>errorMessage := Some ''Add some moons first before analyzing''\<rparr>, [])
   \<and> tabs (fst (handleGo (Inr [example_result 1 ''A'' 7]) 1700000000000 (initial_state, [])))
     = [\<lparr>tab_id = ''home'', tab_name = ''Home'', tab_results = None\<rparr>]"
proof -
  have h: "moons initial_state = []" by (simp add: initial_state_def)
  show ?thesis
    using h C8_no_moons_no_analysis [OF h, of "Inr [example_result 1 ''A'' 7]" 1700000000000 "[]"]
    by (simp add: initial_state_def)
qed

section \<open>Properties of the analyzer model\<close>

lemma analyze_rows:
  "r \<in> set (analyze catalog inventory priceOf) \<longleftrightarrow>
   (\<exists>F\<in>set catalog. analyzeFormula catalog inventory priceOf F = Inr r)"
proof
  assume "r \<in> set (analyze catalog inventory priceOf)"
  then obtain F where "F \<in> set catalog"
    and "r \<in> set (case analyzeFormula catalog inventory priceOf F of Inl e \<Rightarrow> [] | Inr x \<Rightarrow> [x])"
    by (auto simp: analyze_def)
  then show "\<exists>F\<in>set catalog. analyzeFormula catalog inventory priceOf F = Inr r"
    by (cases "analyzeFormula catalog inventory priceOf F") auto
next
  assume "\<exists>F\<in>set catalog. analyzeFormula catalog inventory priceOf F = Inr r"
  then show "r \<in> set (analyze catalog inventory priceOf)"
    by (force simp: analyze_def)
qed

lemma analyzeFormula_row:
  assumes "analyzeFormula catalog inventory priceOf F = Inr r"
  shows "pr_profit r = pr_output_value r - pr_input_cost r"
    and "pr_margin r = (if pr_output_value r = 0 then 0
                        else pr_profit r / pr_output_value r * 100)"
    and "pr_input_cost r = sum_list (map sn_total_price (sn_children (pr_tree r)))"
    and "priceOf (pr_output_id r) = Some (pr_output_unit_price r)"
    and "pr_output_value r = pr_output_quantity r * pr_output_unit_price r"
    and "pr_usesUserMaterials r = usesHoldings (pr_tree r)"
    and "pr_formula_id r = f_identifier F"
  using assms
  by (auto simp: analyzeFormula_def Let_def split: option.splits sum.splits)

text \<open>
  Claim C5.  Every row that \<open>analyze\<close> reports has profit = output value - total input
  cost and margin = profit / output value * 100, the margin being 0 when the output value is
  0; the input cost is the sum of the total prices of the resolved inputs and the output
  value is the output quantity times the output's market price.
\<close>

theorem C5_profit_and_margin:
  "\<forall>r\<in>set (analyze catalog inventory priceOf).
     pr_profit r = pr_output_value r - pr_input_cost r
     \<and> pr_margin r = (if pr_output_value r = 0 then 0
                      else pr_profit r / pr_output_value r * 100)
     \<and> pr_input_cost r = sum_list (map sn_total_price (sn_children (pr_tree r)))
     \<and> pr_output_value r = pr_output_quantity r * pr_output_unit_price r"
proof
  fix r
  assume "r \<in> set (analyze catalog inventory priceOf)"
  then obtain F where "analyzeFormula catalog inventory priceOf F = Inr r"
    unfolding analyze_rows by blast
  then show "pr_profit r = pr_output_value r - pr_input_cost r
     \<and> pr_margin r = (if pr_output_value r = 0 then 0
                      else pr_profit r / pr_output_value r * 100)
     \<and> pr_input_cost r = sum_list (map sn_total_price (sn_children (pr_tree r)))
     \<and> pr_output_value r = pr_output_quantity r * pr_output_unit_price r"
    using analyzeFormula_row [of catalog inventory priceOf F r] by blast
qed

lemma scenario_resolve:
  "resolveMaterial scenario_catalog scenario_inventory scenario_prices 10 10000 {1}
     = Inr (SourcingNode FromHoldings 10 10000 100 1000000 None [])"
  by (subst resolveMaterial.simps)
     (simp add: scenario_catalog_def scenario_inventory_def scenario_prices_def
        formulasProducing_def holdingsSource_def purchaseSource_def chooseSource_def
        leafNode_def List.map_filter_def)

text \<open>
  Claim C6.  The inventory holds 10,000 units of X, X sells at 100 per unit, Y sells at
  2,000,000, and the catalog has the single formula 10,000 X to 1 Y.  Then \<open>analyze\<close> reports
  exactly one row: input cost 1,000,000 from a single leaf sourced from holdings at the
  market price, output value 2,000,000, profit 1,000,000, margin 50, and
  \<open>usesUserMaterials\<close> true.
\<close>

theorem C6_concrete_scenario:
  assumes "inventory x = Some 10000" and "priceOf x = Some 100" and "priceOf y = Some 2000000"
  shows "analyze [\<lparr>f_identifier = i, f_name = n, f_inputs = [(x, 10000)], f_output = (y, 1)\<rparr>]
           inventory priceOf =
     [\<lparr>pr_formula_id = i, pr_formula_name = n, pr_output_id = y,
       pr_output_quantity = 1, pr_output_unit_price = 2000000,
       pr_output_value = 2000000, pr_input_cost = 1000000,
       pr_profit = 1000000, pr_margin = 50, pr_usesUserMaterials = True,
       pr_tree =
         SourcingNode FinalOutput y 1 1000000 1000000 (Some n)
          [SourcingNode FromHoldings x 10000 100 1000000 None []]\<rparr>]"
proof -
  let ?F = "\<lparr>f_identifier = i, f_name = n, f_inputs = [(x, 10000)], f_output = (y, 1)\<rparr>"
  have nf: "find (\<lambda>G. f_identifier G \<notin> {i}) (formulasProducing [?F] x) = None"
    by (simp add: formulasProducing_def)
  have r: "resolveMaterial [?F] inventory priceOf x 10000 {i}
     = Inr (SourcingNode FromHoldings x 10000 100 1000000 None [])"
    by (subst resolveMaterial.simps, subst nf)
       (simp add: assms holdingsSource_def purchaseSource_def chooseSource_def
          leafNode_def List.map_filter_def)
  have e: "evaluateFormula [?F] inventory priceOf FinalOutput ?F 1 {}
           = Inr (SourcingNode FinalOutput y 1 1000000 1000000 (Some n)
                   [SourcingNode FromHoldings x 10000 100 1000000 None []])"
    using r by (simp add: evaluateFormula_def reactionNode_def)
  show ?thesis
    using e assms by (simp add: analyze_def analyzeFormula_def)
qed

lemma scenario_analyze:
  "analyze scenario_catalog scenario_inventory scenario_prices =
     [\<lparr>pr_formula_id = 1, pr_formula_name = ''X to Y'', pr_output_id = 20,
       pr_output_quantity = 1, pr_output_unit_price = 2000000,
       pr_output_value = 2000000, pr_input_cost = 1000000,
       pr_profit = 1000000, pr_margin = 50, pr_usesUserMaterials = True,
       pr_tree =
         SourcingNode FinalOutput 20 1 1000000 1000000 (Some ''X to Y'')
          [SourcingNode FromHoldings 10 10000 100 1000000 None []]\<rparr>]"
proof -
  have r: "resolveMaterial scenario_catalog scenario_inventory scenario_prices 10 10000 {1}
     = Inr (SourcingNode FromHoldings 10 10000 100 1000000 None [])"
    by (rule scenario_resolve)
  have e: "evaluateFormula scenario_catalog scenario_inventory scenario_prices FinalOutput
             \<lparr>f_identifier = 1, f_name = ''X to Y'', f_inputs = [(10, 10000)], f_output = (20, 1)\<rparr>
             1 {}
           = Inr (SourcingNode FinalOutput 20 1 1000000 1000000 (Some ''X to Y'')
                   [SourcingNode FromHoldings 10 10000 100 1000000 None []])"
    using r by (simp add: evaluateFormula_def reactionNode_def)
  show ?thesis
    using e by (simp add: analyze_def analyzeFormula_def scenario_catalog_def scenario_prices_def)
qed

text \<open>
  The scenario with X = material 10 and Y = material 20.
\<close>

theorem C6_witness:
  "scenario_inventory 10 = Some 10000 \<and> scenario_prices 10 = Some 100
   \<and> scenario_prices 20 = Some 2000000
   \<and> analyze scenario_catalog scenario_inventory scenario_prices =
     [\<lparr>pr_formula_id = 1, pr_formula_name = ''X to Y'', pr_output_id = 20,
       pr_output_quantity = 1, pr_output_unit_price = 2000000,
       pr_output_value = 2000000, pr_input_cost = 1000000,
       pr_profit = 1000000, pr_margin = 50, pr_usesUserMaterials = True,
       pr_tree =
         SourcingNode FinalOutput 20 1 1000000 1000000 (Some ''X to Y'')
          [SourcingNode FromHoldings 10 10000 100 1000000 None []]\<rparr>]"
proof -
  have h: "scenario_inventory 10 = Some 10000" "scenario_prices 10 = Some 100"
    "scenario_prices 20 = Some 2000000"
    by (simp_all add: scenario_inventory_def scenario_prices_def)
  show ?thesis
    using h C6_concrete_scenario
      [of scenario_inventory 10 scenario_prices 20 1 "''X to Y''", OF h]
    by (simp add: scenario_catalog_def)
qed

text \<open>
  The row of the scenario of section 8: profit 2,000,000 - 1,000,000, margin 50.
\<close>

theorem C5_witness:
  "analyze scenario_catalog scenario_inventory scenario_prices \<noteq> []
   \<and> pr_output_value (hd (analyze scenario_catalog scenario_inventory scenario_prices)) = 2000000
   \<and> pr_input_cost (hd (analyze scenario_catalog scenario_inventory scenario_prices)) = 1000000
   \<and> pr_profit (hd (analyze scenario_catalog scenario_inventory scenario_prices)) = 2000000 - 1000000
   \<and> pr_margin (hd (analyze scenario_catalog scenario_inventory scenario_prices))
       = 1000000 / 2000000 * 100"
proof -
  let ?rows = "analyze scenario_catalog scenario_inventory scenario_prices"
  have ne: "?rows \<noteq> []" by (simp add: scenario_analyze)
  then have mem: "hd ?rows \<in> set ?rows" by simp
  have v: "pr_output_value (hd ?rows) = 2000000" "pr_input_cost (hd ?rows) = 1000000"
    by (simp_all add: scenario_analyze)
  have "pr_profit (hd ?rows) = pr_output_value (hd ?rows) - pr_input_cost (hd ?rows)
     \<and> pr_margin (hd ?rows) = (if pr_output_value (hd ?rows) = 0 then 0
                      else pr_profit (hd ?rows) / pr_output_value (hd ?rows) * 100)"
    using C5_profit_and_margin [of scenario_catalog scenario_inventory scenario_prices] mem
    by blast
  then show ?thesis using ne v by simp
qed

lemma collect_Inl_mem: "collect rs = Inl e \<Longrightarrow> Inl e \<in> set rs"
  by (induction rs) (auto split: sum.splits)

lemma collect_Inr_map: "collect rs = Inr xs \<Longrightarrow> rs = map Inr xs"
  by (induction rs arbitrary: xs) (auto split: sum.splits)

lemma collect_fails: "Inl e \<in> set rs \<Longrightarrow> \<exists>e'. collect rs = Inl e'"
  by (induction rs) (auto split: sum.splits)

lemma cheapest_mem: "cheapest c cs \<in> set (c # cs)"
proof (induction cs arbitrary: c)
  case Nil
  show ?case by simp
next
  case (Cons a cs)
  have "cheapest (if sn_total_price a < sn_total_price c then a else c) cs
          \<in> set ((if sn_total_price a < sn_total_price c then a else c) # cs)"
    by (rule Cons.IH)
  then show ?case by (auto split: if_splits)
qed

lemma chooseSource_mem:
  "chooseSource h r b = Inr n \<Longrightarrow> h = Some n \<or> r = Some n \<or> b = Some n"
proof -
  assume a: "chooseSource h r b = Inr n"
  obtain c cs where cs: "List.map_filter (\<lambda>c. c) [h, r, b] = c # cs" and n: "n = cheapest c cs"
    using a by (auto simp: chooseSource_def split: list.splits)
  have "n \<in> set (List.map_filter (\<lambda>c. c) [h, r, b])"
    using cheapest_mem [of c cs] cs n by simp
  then show ?thesis
    by (auto simp: List.map_filter_def split: if_splits)
qed

lemma chooseSource_error: "chooseSource h r b = Inl e \<Longrightarrow> e = UnresolvableInput"
  by (auto simp: chooseSource_def split: list.splits)

lemma resolveMaterial_error:
  "resolveMaterial catalog inventory priceOf m q visited = Inl e \<Longrightarrow> e = UnresolvableInput"
  by (subst (asm) resolveMaterial.simps) (rule chooseSource_error)


lemma find_producer:
  "find (\<lambda>G. f_identifier G \<notin> visited) (formulasProducing catalog m) = Some G \<Longrightarrow>
   G \<in> set catalog \<and> fst (f_output G) = m \<and> f_identifier G \<notin> visited"
  by (auto simp: find_Some_iff formulasProducing_def dest: nth_mem)

lemma no_source_unresolvable:
  "\<forall>m\<in>M. inventory m = None \<and> priceOf m = None \<Longrightarrow>
   \<forall>G\<in>set catalog. fst (f_output G) \<in> M \<longrightarrow> (\<exists>inp\<in>set (f_inputs G). fst inp \<in> M) \<Longrightarrow>
   m \<in> M \<Longrightarrow>
   resolveMaterial catalog inventory priceOf m q visited = Inl UnresolvableInput"
proof (induction catalog inventory priceOf m q visited rule: resolveMaterial.induct)
  case (1 catalog inventory priceOf m q visitedFormulaIds)
  have h: "holdingsSource inventory priceOf m q = None"
    using "1.prems" by (simp add: holdingsSource_def)
  have b: "purchaseSource priceOf m q = None"
    using "1.prems" by (simp add: purchaseSource_def)
  have r: "(case find (\<lambda>G. f_identifier G \<notin> visitedFormulaIds) (formulasProducing catalog m) of
          None \<Rightarrow> None
        | Some G \<Rightarrow>
            (case collect
                    (map (\<lambda>inp. resolveMaterial catalog inventory priceOf (fst inp)
                                   (snd inp * (q / snd (f_output G)))
                                   (insert (f_identifier G) visitedFormulaIds))
                         (f_inputs G)) of
               Inl e \<Rightarrow> None
             | Inr kids \<Rightarrow> Some (reactionNode ProducedByReaction G q kids))) = None"
  proof (cases "find (\<lambda>G. f_identifier G \<notin> visitedFormulaIds) (formulasProducing catalog m)")
    case None
    then show ?thesis by simp
  next
    case (Some G)
    have G: "G \<in> set catalog" "fst (f_output G) = m"
      using find_producer [OF Some] by simp_all
    then obtain inp where inp: "inp \<in> set (f_inputs G)" "fst inp \<in> M"
      using "1.prems" by blast
    have "resolveMaterial catalog inventory priceOf (fst inp)
            (snd inp * (q / snd (f_output G))) (insert (f_identifier G) visitedFormulaIds)
          = Inl UnresolvableInput"
      using "1.IH" [OF Some inp(1) "1.prems"(1) "1.prems"(2) inp(2)] .
    then have "Inl UnresolvableInput \<in> set
        (map (\<lambda>inp. resolveMaterial catalog inventory priceOf (fst inp)
                       (snd inp * (q / snd (f_output G)))
                       (insert (f_identifier G) visitedFormulaIds))
             (f_inputs G))"
      using inp(1) by force
    from collect_fails [OF this] obtain e where "collect
        (map (\<lambda>inp. resolveMaterial catalog inventory priceOf (fst inp)
                       (snd inp * (q / snd (f_output G)))
                       (insert (f_identifier G) visitedFormulaIds))
             (f_inputs G)) = Inl e"
      by (rule exE)
    then show ?thesis using Some by simp
  qed
  show ?case
    by (subst resolveMaterial.simps) (simp only: h b r, simp add: chooseSource_def List.map_filter_def)
qed


lemma foldr_max_le: "\<forall>x\<in>set xs. x \<le> b \<Longrightarrow> foldr max xs (0::nat) \<le> b"
  by (induction xs) simp_all

lemma unvisited_card_less:
  "G \<in> set catalog \<Longrightarrow> f_identifier G \<notin> visited \<Longrightarrow>
   card (f_identifier ` set catalog - insert (f_identifier G) visited)
     < card (f_identifier ` set catalog - visited)"
proof -
  assume "G \<in> set catalog" and "f_identifier G \<notin> visited"
  then have "f_identifier ` set catalog - insert (f_identifier G) visited
        \<subset> f_identifier ` set catalog - visited"
    by auto
  moreover have "finite (f_identifier ` set catalog - visited)"
    by simp
  ultimately show ?thesis
    by (rule psubset_card_mono [rotated])
qed

lemma reactionNode_depth:
  "\<forall>k\<in>set kids. reactionDepth k \<le> b \<Longrightarrow> reactionDepth (reactionNode tag G q kids) \<le> Suc b"
  by (simp add: reactionNode_def Let_def foldr_max_le)

lemma resolveMaterial_depth:
  "resolveMaterial catalog inventory priceOf m q visited = Inr n \<Longrightarrow>
   reactionDepth n \<le> card (f_identifier ` set catalog - visited)"
proof (induction catalog inventory priceOf m q visited arbitrary: n rule: resolveMaterial.induct)
  case (1 catalog inventory priceOf m q visitedFormulaIds)
  let ?run = "\<lambda>G. map (\<lambda>inp. resolveMaterial catalog inventory priceOf (fst inp)
                                   (snd inp * (q / snd (f_output G)))
                                   (insert (f_identifier G) visitedFormulaIds))
                         (f_inputs G)"
  let ?r = "case find (\<lambda>G. f_identifier G \<notin> visitedFormulaIds) (formulasProducing catalog m) of
          None \<Rightarrow> None
        | Some G \<Rightarrow>
            (case collect (?run G) of
               Inl e \<Rightarrow> None
             | Inr kids \<Rightarrow> Some (reactionNode ProducedByReaction G q kids))"
  have "chooseSource (holdingsSource inventory priceOf m q) ?r (purchaseSource priceOf m q) = Inr n"
    using "1.prems" by (subst (asm) resolveMaterial.simps)
  then consider (h) "holdingsSource inventory priceOf m q = Some n"
    | (r) "?r = Some n" | (b) "purchaseSource priceOf m q = Some n"
    using chooseSource_mem by blast
  then show ?case
  proof cases
    case h
    then show ?thesis
      by (auto simp: holdingsSource_def leafNode_def split: option.splits if_splits)
  next
    case b
    then show ?thesis
      by (auto simp: purchaseSource_def leafNode_def split: option.splits)
  next
    case r
    then obtain G kids where
      f: "find (\<lambda>G. f_identifier G \<notin> visitedFormulaIds) (formulasProducing catalog m) = Some G"
      and c: "collect (?run G) = Inr kids"
      and n: "n = reactionNode ProducedByReaction G q kids"
      by (auto split: option.splits sum.splits)
    have G: "G \<in> set catalog" "f_identifier G \<notin> visitedFormulaIds"
      using find_producer [OF f] by simp_all
    have m: "?run G = map Inr kids" using c by (rule collect_Inr_map)
    have "\<forall>k\<in>set kids. reactionDepth k
            \<le> card (f_identifier ` set catalog - insert (f_identifier G) visitedFormulaIds)"
    proof
      fix k assume "k \<in> set kids"
      then have "Inr k \<in> set (?run G)" unfolding m by simp
      then obtain inp where inp: "inp \<in> set (f_inputs G)"
        and k: "resolveMaterial catalog inventory priceOf (fst inp)
                  (snd inp * (q / snd (f_output G)))
                  (insert (f_identifier G) visitedFormulaIds) = Inr k"
        by auto
      show "reactionDepth k
            \<le> card (f_identifier ` set catalog - insert (f_identifier G) visitedFormulaIds)"
        using "1.IH" [OF f inp k] .
    qed
    then have "reactionDepth n
        \<le> Suc (card (f_identifier ` set catalog - insert (f_identifier G) visitedFormulaIds))"
      unfolding n by (rule reactionNode_depth)
    then show ?thesis using unvisited_card_less [OF G] by linarith
  qed
qed

lemma evaluateFormula_depth:
  assumes "evaluateFormula catalog inventory priceOf tag F Q visited = Inr n"
    and "F \<in> set catalog" and "f_identifier F \<notin> visited"
  shows "reactionDepth n \<le> card (f_identifier ` set catalog - visited)"
proof -
  let ?run = "map (\<lambda>inp. resolveMaterial catalog inventory priceOf (fst inp)
                            (snd inp * (Q / snd (f_output F)))
                            (insert (f_identifier F) visited))
                  (f_inputs F)"
  obtain kids where c: "collect ?run = Inr kids" and n: "n = reactionNode tag F Q kids"
    using assms(1) by (auto simp: evaluateFormula_def split: sum.splits)
  have m: "?run = map Inr kids" using c by (rule collect_Inr_map)
  have "\<forall>k\<in>set kids. reactionDepth k
          \<le> card (f_identifier ` set catalog - insert (f_identifier F) visited)"
  proof
    fix k assume "k \<in> set kids"
    then have "Inr k \<in> set ?run" unfolding m by simp
    then obtain inp where
      "resolveMaterial catalog inventory priceOf (fst inp)
                  (snd inp * (Q / snd (f_output F)))
                  (insert (f_identifier F) visited) = Inr k"
      by auto
    then show "reactionDepth k
          \<le> card (f_identifier ` set catalog - insert (f_identifier F) visited)"
      by (rule resolveMaterial_depth)
  qed
  then have "reactionDepth n
      \<le> Suc (card (f_identifier ` set catalog - insert (f_identifier F) visited))"
    unfolding n by (rule reactionNode_depth)
  then show ?thesis using unvisited_card_less [OF assms(2,3)] by linarith
qed

lemma analyzeFormula_tree:
  "analyzeFormula catalog inventory priceOf F = Inr r \<Longrightarrow>
   evaluateFormula catalog inventory priceOf FinalOutput F (snd (f_output F)) {} = Inr (pr_tree r)"
  by (auto simp: analyzeFormula_def Let_def split: option.splits sum.splits)

lemma analyze_depth:
  "r \<in> set (analyze catalog inventory priceOf) \<Longrightarrow>
   reactionDepth (pr_tree r) \<le> card (f_identifier ` set catalog)"
proof -
  assume "r \<in> set (analyze catalog inventory priceOf)"
  then obtain F where F: "F \<in> set catalog"
    and r: "analyzeFormula catalog inventory priceOf F = Inr r"
    unfolding analyze_rows by blast
  have "reactionDepth (pr_tree r) \<le> card (f_identifier ` set catalog - {})"
    using analyzeFormula_tree [OF r] F by (rule evaluateFormula_depth) simp
  then show ?thesis by simp
qed

lemma evaluateFormula_unresolvable:
  assumes "\<forall>m\<in>M. inventory m = None \<and> priceOf m = None"
    and "\<forall>G\<in>set catalog. fst (f_output G) \<in> M \<longrightarrow> (\<exists>inp\<in>set (f_inputs G). fst inp \<in> M)"
    and "inp \<in> set (f_inputs F)" and "fst inp \<in> M"
  shows "evaluateFormula catalog inventory priceOf tag F Q visited = Inl UnresolvableInput"
proof -
  let ?run = "map (\<lambda>inp. resolveMaterial catalog inventory priceOf (fst inp)
                            (snd inp * (Q / snd (f_output F)))
                            (insert (f_identifier F) visited))
                  (f_inputs F)"
  have "resolveMaterial catalog inventory priceOf (fst inp)
          (snd inp * (Q / snd (f_output F))) (insert (f_identifier F) visited)
        = Inl UnresolvableInput"
    using assms(1,2,4) by (rule no_source_unresolvable)
  then have "Inl UnresolvableInput \<in> set ?run"
    using assms(3) by force
  from collect_fails [OF this] obtain e where e: "collect ?run = Inl e"
    by (rule exE)
  then have "Inl e \<in> set ?run" by (rule collect_Inl_mem)
  then obtain j where "resolveMaterial catalog inventory priceOf (fst j)
          (snd j * (Q / snd (f_output F))) (insert (f_identifier F) visited) = Inl e"
    by auto
  then have "e = UnresolvableInput" by (rule resolveMaterial_error)
  then show ?thesis using e by (simp add: evaluateFormula_def)
qed

lemma analyzeFormula_excluded:
  assumes "\<forall>m\<in>M. inventory m = None \<and> priceOf m = None"
    and "\<forall>G\<in>set catalog. fst (f_output G) \<in> M \<longrightarrow> (\<exists>inp\<in>set (f_inputs G). fst inp \<in> M)"
    and "inp \<in> set (f_inputs F)" and "fst inp \<in> M"
  shows "analyzeFormula catalog inventory priceOf F =
           Inl (if priceOf (fst (f_output F)) = None then PriceUnavailable
                else UnresolvableInput)"
  using evaluateFormula_unresolvable [OF assms, of FinalOutput "snd (f_output F)" "{}"]
  by (simp add: analyzeFormula_def split: option.splits)

lemma analyze_excludes:
  assumes "distinct (map f_identifier catalog)" and "F \<in> set catalog"
    and "analyzeFormula catalog inventory priceOf F = Inl e"
    and "r \<in> set (analyze catalog inventory priceOf)"
  shows "pr_formula_id r \<noteq> f_identifier F"
proof
  assume eq: "pr_formula_id r = f_identifier F"
  obtain F' where F': "F' \<in> set catalog"
    and r: "analyzeFormula catalog inventory priceOf F' = Inr r"
    using assms(4) unfolding analyze_rows by blast
  have "f_identifier F' = f_identifier F"
    using analyzeFormula_row(7) [OF r] eq by simp
  then have "F' = F"
    using assms(1,2) F' by (meson distinct_map inj_onD)
  then show False using r assms(3) by simp
qed

lemma runs_each_once_Nil: "runs_each_once catalog visited []"
  unfolding runs_each_once_def by (rule exI [of _ "[]"]) simp

lemma runs_each_once_Cons:
  assumes "G \<in> set catalog" and "f_identifier G \<notin> visited"
    and "runs_each_once catalog (insert (f_identifier G) visited) p"
  shows "runs_each_once catalog visited (f_name G # p)"
proof -
  obtain Fs where Fs: "set Fs \<subseteq> set catalog" "distinct (map f_identifier Fs)"
    "f_identifier ` set Fs \<inter> insert (f_identifier G) visited = {}" "map f_name Fs = p"
    using assms(3) unfolding runs_each_once_def by blast
  have "f_identifier G \<notin> f_identifier ` set Fs" using Fs(3) by blast
  then have "set (G # Fs) \<subseteq> set catalog \<and> distinct (map f_identifier (G # Fs))
        \<and> f_identifier ` set (G # Fs) \<inter> visited = {} \<and> map f_name (G # Fs) = f_name G # p"
    using Fs assms(1,2) by auto
  then show ?thesis unfolding runs_each_once_def by (rule exI)
qed

lemma reactionNode_paths:
  assumes "G \<in> set catalog" and "f_identifier G \<notin> visited"
    and kids: "\<forall>k\<in>set kids. \<forall>p\<in>set (formulaPaths k).
                 runs_each_once catalog (insert (f_identifier G) visited) p"
    and p: "p \<in> set (formulaPaths (reactionNode tag G q kids))"
  shows "runs_each_once catalog visited p"
proof (cases "kids = []")
  case True
  then have "p = f_name G # []"
    using p by (simp add: reactionNode_def Let_def)
  then show ?thesis
    using runs_each_once_Cons [OF assms(1,2) runs_each_once_Nil] by simp
next
  case False
  then obtain k p' where "k \<in> set kids" "p' \<in> set (formulaPaths k)" "p = f_name G # p'"
    using p by (auto simp: reactionNode_def Let_def)
  then show ?thesis
    using runs_each_once_Cons [OF assms(1,2)] kids by blast
qed

lemma resolveMaterial_paths:
  "resolveMaterial catalog inventory priceOf m q visited = Inr n \<Longrightarrow>
   p \<in> set (formulaPaths n) \<Longrightarrow> runs_each_once catalog visited p"
proof (induction catalog inventory priceOf m q visited arbitrary: n p rule: resolveMaterial.induct)
  case (1 catalog inventory priceOf m q visitedFormulaIds)
  let ?run = "\<lambda>G. map (\<lambda>inp. resolveMaterial catalog inventory priceOf (fst inp)
                                   (snd inp * (q / snd (f_output G)))
                                   (insert (f_identifier G) visitedFormulaIds))
                         (f_inputs G)"
  let ?r = "case find (\<lambda>G. f_identifier G \<notin> visitedFormulaIds) (formulasProducing catalog m) of
          None \<Rightarrow> None
        | Some G \<Rightarrow>
            (case collect (?run G) of
               Inl e \<Rightarrow> None
             | Inr kids \<Rightarrow> Some (reactionNode ProducedByReaction G q kids))"
  have "chooseSource (holdingsSource inventory priceOf m q) ?r (purchaseSource priceOf m q) = Inr n"
    using "1.prems"(1) by (subst (asm) resolveMaterial.simps)
  then consider (h) "holdingsSource inventory priceOf m q = Some n"
    | (r) "?r = Some n" | (b) "purchaseSource priceOf m q = Some n"
    using chooseSource_mem by blast
  then show ?case
  proof cases
    case h
    then have "p = []"
      using "1.prems"(2)
      by (auto simp: holdingsSource_def leafNode_def split: option.splits if_splits)
    then show ?thesis by (simp add: runs_each_once_Nil)
  next
    case b
    then have "p = []"
      using "1.prems"(2) by (auto simp: purchaseSource_def leafNode_def split: option.splits)
    then show ?thesis by (simp add: runs_each_once_Nil)
  next
    case r
    then obtain G kids where
      f: "find (\<lambda>G. f_identifier G \<notin> visitedFormulaIds) (formulasProducing catalog m) = Some G"
      and c: "collect (?run G) = Inr kids"
      and n: "n = reactionNode ProducedByReaction G q kids"
      by (auto split: option.splits sum.splits)
    have G: "G \<in> set catalog" "f_identifier G \<notin> visitedFormulaIds"
      using find_producer [OF f] by simp_all
    have m: "?run G = map Inr kids" using c by (rule collect_Inr_map)
    have kids: "\<forall>k\<in>set kids. \<forall>p\<in>set (formulaPaths k).
            runs_each_once catalog (insert (f_identifier G) visitedFormulaIds) p"
    proof (intro ballI)
      fix k p' assume "k \<in> set kids" and p': "p' \<in> set (formulaPaths k)"
      then have "Inr k \<in> set (?run G)" unfolding m by simp
      then obtain inp where inp: "inp \<in> set (f_inputs G)"
        and k: "resolveMaterial catalog inventory priceOf (fst inp)
                  (snd inp * (q / snd (f_output G)))
                  (insert (f_identifier G) visitedFormulaIds) = Inr k"
        by auto
      show "runs_each_once catalog (insert (f_identifier G) visitedFormulaIds) p'"
        using "1.IH" [OF f inp k p'] .
    qed
    show ?thesis
      using G kids "1.prems"(2) unfolding n by (rule reactionNode_paths)
  qed
qed

lemma evaluateFormula_paths:
  assumes "evaluateFormula catalog inventory priceOf tag F Q visited = Inr n"
    and "F \<in> set catalog" and "f_identifier F \<notin> visited"
    and "p \<in> set (formulaPaths n)"
  shows "runs_each_once catalog visited p"
proof -
  let ?run = "map (\<lambda>inp. resolveMaterial catalog inventory priceOf (fst inp)
                            (snd inp * (Q / snd (f_output F)))
                            (insert (f_identifier F) visited))
                  (f_inputs F)"
  obtain kids where c: "collect ?run = Inr kids" and n: "n = reactionNode tag F Q kids"
    using assms(1) by (auto simp: evaluateFormula_def split: sum.splits)
  have m: "?run = map Inr kids" using c by (rule collect_Inr_map)
  have kids: "\<forall>k\<in>set kids. \<forall>p\<in>set (formulaPaths k).
          runs_each_once catalog (insert (f_identifier F) visited) p"
  proof (intro ballI)
    fix k p' assume "k \<in> set kids" and p': "p' \<in> set (formulaPaths k)"
    then have "Inr k \<in> set ?run" unfolding m by simp
    then obtain inp where
      "resolveMaterial catalog inventory priceOf (fst inp)
                  (snd inp * (Q / snd (f_output F)))
                  (insert (f_identifier F) visited) = Inr k"
      by auto
    then show "runs_each_once catalog (insert (f_identifier F) visited) p'"
      using p' by (rule resolveMaterial_paths)
  qed
  show ?thesis
    using assms(2,3) kids assms(4) unfolding n by (rule reactionNode_paths)
qed

lemma analyze_paths:
  "r \<in> set (analyze catalog inventory priceOf) \<Longrightarrow> p \<in> set (formulaPaths (pr_tree r)) \<Longrightarrow>
   runs_each_once catalog {} p"
proof -
  assume "r \<in> set (analyze catalog inventory priceOf)" and p: "p \<in> set (formulaPaths (pr_tree r))"
  then obtain F where F: "F \<in> set catalog"
    and r: "analyzeFormula catalog inventory priceOf F = Inr r"
    unfolding analyze_rows by blast
  show ?thesis
    using analyzeFormula_tree [OF r] F _ p by (rule evaluateFormula_paths) simp
qed

lemma supplied_analyze:
  "analyze cycle_catalog (\<lambda>m. None) supplied_prices =
   [\<lparr>pr_formula_id = 1, pr_formula_name = ''A'', pr_output_id = 12,
     pr_output_quantity = 1, pr_output_unit_price = 500,
     pr_output_value = 500, pr_input_cost = 150, pr_profit = 350,
     pr_margin = 70, pr_usesUserMaterials = False,
     pr_tree =
       SourcingNode FinalOutput 12 1 150 150 (Some ''A'')
        [SourcingNode ProducedByReaction 11 100 (3 / 2) 150 (Some ''B'')
          [SourcingNode Purchased 10 50 3 150 None []]]\<rparr>,
    \<lparr>pr_formula_id = 3, pr_formula_name = ''C'', pr_output_id = 10,
     pr_output_quantity = 10, pr_output_unit_price = 3,
     pr_output_value = 30, pr_input_cost = 15 / 2, pr_profit = 45 / 2,
     pr_margin = 75, pr_usesUserMaterials = False,
     pr_tree =
       SourcingNode FinalOutput 10 10 (3 / 4) (15 / 2) (Some ''C'')
        [SourcingNode ProducedByReaction 11 5 (3 / 2) (15 / 2) (Some ''B'')
          [SourcingNode Purchased 10 (5 / 2) 3 (15 / 2) None []]]\<rparr>]"
  by (simp add: analyze_def analyzeFormula_def evaluateFormula_def resolveMaterial.simps
      cycle_catalog_def supplied_prices_def formulasProducing_def holdingsSource_def
      purchaseSource_def chooseSource_def leafNode_def reactionNode_def List.map_filter_def
      Let_def)

text \<open>
  Claim C7.  \<open>analyze\<close> is a total function of catalog, inventory and prices (the
  recursion of \<open>resolveMaterial\<close> is shown to terminate where it is defined: each nested run
  adds a catalog formula to \<open>visitedFormulaIds\<close>), cycles or not.  No path of a reported
  tree nests more formula runs than the catalog has formulas, and the formulas run along a
  path are catalog formulas with pairwise distinct identifiers: a path runs a formula at
  most once.  And when a set \<open>M\<close> of materials has no external source (none of them is held or
  priced, and every formula that makes one of them needs one of them), every catalog
  formula with an input in \<open>M\<close> fails with \<open>UnresolvableInput\<close> (or \<open>PriceUnavailable\<close> when its own
  output has no price) and, formula identifiers being unique, no reported row is its row;
  the results are still produced.
\<close>

theorem C7_cycle_safety:
  "(\<forall>r\<in>set (analyze catalog inventory priceOf).
      reactionDepth (pr_tree r) \<le> card (f_identifier ` set catalog)
      \<and> (\<forall>p\<in>set (formulaPaths (pr_tree r)). runs_each_once catalog {} p))
   \<and> ((\<forall>m\<in>M. inventory m = None \<and> priceOf m = None) \<longrightarrow>
      (\<forall>G\<in>set catalog. fst (f_output G) \<in> M \<longrightarrow> (\<exists>inp\<in>set (f_inputs G). fst inp \<in> M)) \<longrightarrow>
      (\<forall>F\<in>set catalog. (\<exists>inp\<in>set (f_inputs F). fst inp \<in> M) \<longrightarrow>
         analyzeFormula catalog inventory priceOf F =
           Inl (if priceOf (fst (f_output F)) = None then PriceUnavailable
                else UnresolvableInput)
         \<and> (distinct (map f_identifier catalog) \<longrightarrow>
              (\<forall>r\<in>set (analyze catalog inventory priceOf).
                 pr_formula_id r \<noteq> f_identifier F))))"
proof (intro conjI ballI impI)
  fix r
  assume "r \<in> set (analyze catalog inventory priceOf)"
  then show "reactionDepth (pr_tree r) \<le> card (f_identifier ` set catalog)"
    by (rule analyze_depth)
next
  fix r p
  assume "r \<in> set (analyze catalog inventory priceOf)" "p \<in> set (formulaPaths (pr_tree r))"
  then show "runs_each_once catalog {} p"
    by (rule analyze_paths)
next
  fix F
  assume a: "\<forall>m\<in>M. inventory m = None \<and> priceOf m = None"
    "\<forall>G\<in>set catalog. fst (f_output G) \<in> M \<longrightarrow> (\<exists>inp\<in>set (f_inputs G). fst inp \<in> M)"
    and F: "F \<in> set catalog" "\<exists>inp\<in>set (f_inputs F). fst inp \<in> M"
  from F(2) obtain inp where "inp \<in> set (f_inputs F)" "fst inp \<in> M" by blast
  with a show "analyzeFormula catalog inventory priceOf F =
           Inl (if priceOf (fst (f_output F)) = None then PriceUnavailable
                else UnresolvableInput)"
    by (rule analyzeFormula_excluded)
next
  fix F r
  assume a: "\<forall>m\<in>M. inventory m = None \<and> priceOf m = None"
    "\<forall>G\<in>set catalog. fst (f_output G) \<in> M \<longrightarrow> (\<exists>inp\<in>set (f_inputs G). fst inp \<in> M)"
    and d: "distinct (map f_identifier catalog)"
    and F: "F \<in> set catalog" "\<exists>inp\<in>set (f_inputs F). fst inp \<in> M"
    and r: "r \<in> set (analyze catalog inventory priceOf)"
  from F(2) obtain inp where "inp \<in> set (f_inputs F)" "fst inp \<in> M" by blast
  with a have "analyzeFormula catalog inventory priceOf F =
           Inl (if priceOf (fst (f_output F)) = None then PriceUnavailable
                else UnresolvableInput)"
    by (rule analyzeFormula_excluded)
  with d F(1) show "pr_formula_id r \<noteq> f_identifier F"
    using r by (rule analyze_excludes)
qed

text \<open>
  The cycle catalog: materials 10 and 11 are made only from each other, so A, which needs
  11 and whose output is priced, is unresolvable, and no formula is reported.  Once material
  10 can be bought, A is reported, and the one path of its tree runs A and then B.
\<close>

theorem C7_witness:
  "cycle_prices 10 = None \<and> cycle_prices 11 = None
   \<and> distinct (map f_identifier cycle_catalog)
   \<and> analyzeFormula cycle_catalog (\<lambda>m. None) cycle_prices
        \<lparr>f_identifier = 1, f_name = ''A'', f_inputs = [(11, 100)], f_output = (12, 1)\<rparr>
      = Inl UnresolvableInput
   \<and> analyze cycle_catalog (\<lambda>m. None) cycle_prices = []
   \<and> formulaPaths (pr_tree (hd (analyze cycle_catalog (\<lambda>m. None) supplied_prices)))
      = [[''A'', ''B'']]
   \<and> runs_each_once cycle_catalog {} [''A'', ''B'']"
proof -
  let ?A = "\<lparr>f_identifier = 1, f_name = ''A'', f_inputs = [(11, 100)], f_output = (12, 1)\<rparr>"
  let ?B = "\<lparr>f_identifier = 2, f_name = ''B'', f_inputs = [(10, 5)], f_output = (11, 10)\<rparr>"
  let ?C = "\<lparr>f_identifier = 3, f_name = ''C'', f_inputs = [(11, 5)], f_output = (10, 10)\<rparr>"
  have p: "cycle_prices 10 = None" "cycle_prices 11 = None" "cycle_prices 12 = Some 500"
    by (simp_all add: cycle_prices_def)
  have h1: "\<forall>m\<in>{10, 11}. (\<lambda>m. None :: real option) m = None \<and> cycle_prices m = None"
    using p by simp
  have h2: "\<forall>G\<in>set cycle_catalog. fst (f_output G) \<in> {10, 11} \<longrightarrow>
              (\<exists>inp\<in>set (f_inputs G). fst inp \<in> {10, 11})"
    by (simp add: cycle_catalog_def)
  have d: "distinct (map f_identifier cycle_catalog)"
    by (simp add: cycle_catalog_def)
  have excl: "\<forall>F\<in>set cycle_catalog. (\<exists>inp\<in>set (f_inputs F). fst inp \<in> {10, 11}) \<longrightarrow>
         analyzeFormula cycle_catalog (\<lambda>m. None) cycle_prices F =
           Inl (if cycle_prices (fst (f_output F)) = None then PriceUnavailable
                else UnresolvableInput)
         \<and> (\<forall>r\<in>set (analyze cycle_catalog (\<lambda>m. None) cycle_prices).
              pr_formula_id r \<noteq> f_identifier F)"
    using C7_cycle_safety [of cycle_catalog "\<lambda>m. None" cycle_prices "{10, 11}"] h1 h2 d
    by simp
  have a: "analyzeFormula cycle_catalog (\<lambda>m. None) cycle_prices ?A = Inl UnresolvableInput"
    using excl p by (simp add: cycle_catalog_def)
  have b: "analyzeFormula cycle_catalog (\<lambda>m. None) cycle_prices ?B = Inl PriceUnavailable"
    using excl p by (simp add: cycle_catalog_def)
  have c: "analyzeFormula cycle_catalog (\<lambda>m. None) cycle_prices ?C = Inl PriceUnavailable"
    using excl p by (simp add: cycle_catalog_def)
  have e: "analyze cycle_catalog (\<lambda>m. None) cycle_prices = []"
    unfolding analyze_def using a b c by (subst (2) cycle_catalog_def) simp
  let ?rows = "analyze cycle_catalog (\<lambda>m. None) supplied_prices"
  have paths: "formulaPaths (pr_tree (hd ?rows)) = [[''A'', ''B'']]"
    by (simp add: supplied_analyze)
  have "hd ?rows \<in> set ?rows" by (simp add: supplied_analyze)
  then have "\<forall>p\<in>set (formulaPaths (pr_tree (hd ?rows))). runs_each_once cycle_catalog {} p"
    using C7_cycle_safety [of cycle_catalog "\<lambda>m. None" supplied_prices "{}"] by blast
  then have once: "runs_each_once cycle_catalog {} [''A'', ''B'']"
    unfolding paths by simp
  show ?thesis using p d a e paths once by simp
qed

end
